theory Spec2Isabelle
  imports Complex_Main
begin

section \<open>Offer negotiation: data model\<close>

text \<open>
  The development embeds the offer negotiation handlers of \<^verbatim>\<open>routes/offers.js\<close>, the
  model methods and hooks of \<^verbatim>\<open>models/Offer.js\<close> and \<^verbatim>\<open>models/Product.js\<close>, and the
  expiry job of \<^verbatim>\<open>server.js\<close>.

  Conventions.
  \<^item> Object ids are natural numbers, dates are integers (milliseconds since the epoch).
  \<^item> A JavaScript \<^verbatim>\<open>Number\<close> holding a price is a rational: the handlers only copy and
    compare prices, and the document mapper refuses \<^verbatim>\<open>NaN\<close> when it casts.
  \<^item> An optional field is an \<open>option\<close>; \<^verbatim>\<open>undefined\<close> is \<open>None\<close>.
  \<^item> Every handler takes the store and returns the response together with the store
    it leaves behind; the \<^verbatim>\<open>catch\<close> block of a handler keeps the writes done so far.
  \<^item> One handler run reads the clock once (\<open>now\<close>).
  \<^item> The log of the store holds the lines written by \<^verbatim>\<open>console.error\<close>.
  \<^item> Referenced user documents are taken to exist, so \<^verbatim>\<open>populate('buyer')\<close> and
    \<^verbatim>\<open>populate('seller')\<close> always deliver; the rendered text of a notification is left out,
    its structured \<^verbatim>\<open>offerDetails\<close> are kept.
\<close>

type_synonym oid = nat
type_synonym date = int

datatype offer_status = Pending | Accepted | Declined | Countered | Expired | Withdrawn

fun status_name :: "offer_status \<Rightarrow> string" where
  "status_name Pending = ''pending''"
| "status_name Accepted = ''accepted''"
| "status_name Declined = ''declined''"
| "status_name Countered = ''countered''"
| "status_name Expired = ''expired''"
| "status_name Withdrawn = ''withdrawn''"

text \<open>The \<^verbatim>\<open>enum\<close> of \<^verbatim>\<open>history.action\<close> in the offer schema.\<close>

definition history_actions :: "string list" where
  "history_actions =
     [''created'', ''countered'', ''accepted'', ''declined'', ''expired'', ''withdrawn'']"

record counter_offer =
  c_amount :: rat
  c_message :: "string option"
  c_timestamp :: date

record history_entry =
  action :: string
  h_amount :: "rat option"
  h_message :: "string option"
  h_timestamp :: date
  h_by :: oid

record offer =
  offer_id :: oid
  listing :: oid
  buyer :: oid
  seller :: oid
  offerAmount :: rat
  originalPrice :: rat
  message :: "string option"
  status :: offer_status
  counterOffer :: "counter_offer option"
  expiresAt :: date
  acceptedAt :: "date option"
  declinedAt :: "date option"
  autoAcceptPrice :: "rat option"
  minimumOffer :: "rat option"
  history :: "history_entry list"
  createdAt :: date

datatype product_status = Available | SalePending | Sold | Inactive | Removed

record product =
  product_id :: oid
  p_seller :: oid
  price :: rat
  acceptsOffers :: bool
  p_minimumOffer :: "rat option"
  p_autoAcceptPrice :: "rat option"
  p_status :: product_status
  soldTo :: "oid option"
  soldPrice :: "rat option"
  soldAt :: "date option"
  images :: nat

text \<open>A notification: the \<^verbatim>\<open>Message.create\<close> document, without its rendered text.\<close>

record notification =
  n_sender :: oid
  n_receiver :: oid
  n_listing :: oid
  n_offerId :: oid
  n_amount :: rat
  n_action :: string

record store =
  offers :: "offer list"
  listings :: "product list"
  messages :: "notification list"
  logs :: "string list"

text \<open>
  What a handler run cannot decide by itself: the clock and whether the notification
  sink (\<^verbatim>\<open>Conversation.findOrCreate\<close> followed by \<^verbatim>\<open>Message.create\<close>) rejects.
\<close>

record env =
  now :: date
  notify_fails :: bool

datatype error =
    ListingNotFound
  | ListingUnavailable
  | OffersNotAccepted
  | SelfOffer
  | WaitHours int
  | OfferNotFound
  | NotAuthorized
  | NotPending
  | OfferExpired
  | CounterTooLow
  | CounterTooHigh
  | CannotWithdraw
  | NoCounter
  | Failed string

text \<open>The HTTP status each rejection is sent with.\<close>

fun http_status :: "error \<Rightarrow> nat" where
  "http_status ListingNotFound = 404"
| "http_status OfferNotFound = 404"
| "http_status NotAuthorized = 403"
| "http_status (Failed _) = 500"
| "http_status _ = 400"

datatype auto_response = Accept | Decline

section \<open>The store\<close>

definition offer_findById :: "oid \<Rightarrow> store \<Rightarrow> offer option" where
  "offer_findById i s = find (\<lambda>x. offer_id x = i) (offers s)"

definition product_findById :: "oid \<Rightarrow> store \<Rightarrow> product option" where
  "product_findById i s = find (\<lambda>x. product_id x = i) (listings s)"

text \<open>Writing a document back: replace the stored one with its id, or insert it.\<close>

definition put_offer :: "offer \<Rightarrow> offer list \<Rightarrow> offer list" where
  "put_offer d xs =
     (if offer_id d \<in> offer_id ` set xs
      then map (\<lambda>x. if offer_id x = offer_id d then d else x) xs
      else xs @ [d])"

definition put_product :: "product \<Rightarrow> product list \<Rightarrow> product list" where
  "put_product p xs =
     (if product_id p \<in> product_id ` set xs
      then map (\<lambda>x. if product_id x = product_id p then p else x) xs
      else xs @ [p])"

text \<open>A new document gets an id that no stored offer has.\<close>

definition fresh_id :: "offer list \<Rightarrow> oid" where
  "fresh_id xs = Suc (foldr max (map offer_id xs) 0)"

section \<open>The offer model (\<^verbatim>\<open>models/Offer.js\<close>)\<close>

text \<open>
  A threshold is tested by truthiness first (\<^verbatim>\<open>this.autoAcceptPrice && ...\<close>): an absent
  threshold and a threshold of zero both count as not set.
\<close>

definition checkAutoResponse :: "offer \<Rightarrow> auto_response option" where
  "checkAutoResponse d =
     (if status d \<noteq> Pending then None
      else if (case autoAcceptPrice d of None \<Rightarrow> False
               | Some a \<Rightarrow> a \<noteq> 0 \<and> a \<le> offerAmount d) then Some Accept
      else if (case minimumOffer d of None \<Rightarrow> False
               | Some m \<Rightarrow> m \<noteq> 0 \<and> offerAmount d < m) then Some Decline
      else None)"

definition isExpired :: "date \<Rightarrow> offer \<Rightarrow> bool" where
  "isExpired t d = (status d = Pending \<and> expiresAt d < t)"

text \<open>
  The \<^verbatim>\<open>pre('save')\<close> hook. \<open>loaded\<close> is the document as it was read (for a new document:
  as it was constructed, with the schema defaults); no handler assigns \<open>status\<close> twice
  before a save, so \<^verbatim>\<open>isModified('status')\<close> is: the status differs from the one loaded.
\<close>

definition history_hook :: "date \<Rightarrow> offer \<Rightarrow> offer \<Rightarrow> offer" where
  "history_hook t loaded d =
     (if status d \<noteq> status loaded
      then d\<lparr>history := history d @
             [\<lparr>action = status_name (status d),
               h_amount = (if status d = Countered then map_option c_amount (counterOffer d)
                           else Some (offerAmount d)),
               h_message = (if status d = Countered
                            then (case counterOffer d of None \<Rightarrow> None | Some c \<Rightarrow> c_message c)
                            else message d),
               h_timestamp = t,
               h_by = (if status d = Countered then seller d else buyer d)\<rparr>]\<rparr>
      else d)"

text \<open>
  The validators of the offer schema that a save runs (before the hook above):
  \<^verbatim>\<open>offerAmount: min 1\<close>, \<^verbatim>\<open>message: maxLength 500\<close> and the \<^verbatim>\<open>enum\<close> of the history actions.
\<close>

definition offer_valid :: "offer \<Rightarrow> bool" where
  "offer_valid d =
     (1 \<le> offerAmount d
      \<and> (case message d of None \<Rightarrow> True | Some m \<Rightarrow> length m \<le> 500)
      \<and> list_all (\<lambda>h. action h \<in> set history_actions) (history d))"

text \<open>\<^verbatim>\<open>offer.save()\<close>: \<open>None\<close> when validation rejects, else the saved document and the store.\<close>

definition offer_save :: "date \<Rightarrow> offer \<Rightarrow> offer \<Rightarrow> store \<Rightarrow> (offer \<times> store) option" where
  "offer_save t loaded d s =
     (if offer_valid d
      then (let d' = history_hook t loaded d
            in Some (d', s\<lparr>offers := put_offer d' (offers s)\<rparr>))
      else None)"

section \<open>The listing model (\<^verbatim>\<open>models/Product.js\<close>)\<close>

text \<open>
  The validators of the listing schema on the fields modelled here, and its
  \<^verbatim>\<open>pre('save')\<close> hook on the number of images.
\<close>

definition product_valid :: "product \<Rightarrow> bool" where
  "product_valid p =
     (0 \<le> price p
      \<and> (case p_minimumOffer p of None \<Rightarrow> True | Some m \<Rightarrow> m = 0 \<or> m < price p)
      \<and> (case p_autoAcceptPrice p of None \<Rightarrow> True | Some a \<Rightarrow> a = 0 \<or> a \<le> price p)
      \<and> images p \<noteq> 0 \<and> images p \<le> 8)"

definition product_save :: "product \<Rightarrow> store \<Rightarrow> store option" where
  "product_save p s =
     (if product_valid p then Some (s\<lparr>listings := put_product p (listings s)\<rparr>) else None)"

section \<open>The notification sink\<close>

definition notify :: "env \<Rightarrow> notification \<Rightarrow> store \<Rightarrow> store option" where
  "notify e n s =
     (if notify_fails e then None else Some (s\<lparr>messages := messages s @ [n]\<rparr>))"

text \<open>The \<^verbatim>\<open>catch\<close> block of a handler: log, answer 500, keep the writes done so far.\<close>

definition caught :: "string \<Rightarrow> string \<Rightarrow> store \<Rightarrow> (error + 'a) \<times> store" where
  "caught tag msg s = (Inl (Failed msg), s\<lparr>logs := logs s @ [tag]\<rparr>)"

section \<open>Creating an offer (\<^verbatim>\<open>POST /api/offers\<close>)\<close>

text \<open>\<^verbatim>\<open>new Offer({...})\<close>: the fields given, the schema defaults for the rest.\<close>

definition new_offer :: "date \<Rightarrow> oid \<Rightarrow> product \<Rightarrow> rat \<Rightarrow> string option \<Rightarrow> offer list \<Rightarrow> offer" where
  "new_offer t buyerId l amt msg xs =
     \<lparr>offer_id = fresh_id xs, listing = product_id l, buyer = buyerId, seller = p_seller l,
      offerAmount = amt, originalPrice = price l, message = msg, status = Pending,
      counterOffer = None, expiresAt = t + 48 * 60 * 60 * 1000,
      acceptedAt = None, declinedAt = None,
      autoAcceptPrice = p_autoAcceptPrice l, minimumOffer = p_minimumOffer l,
      history = [], createdAt = t\<rparr>"

definition offer_note :: "oid \<Rightarrow> oid \<Rightarrow> oid \<Rightarrow> oid \<Rightarrow> rat \<Rightarrow> string \<Rightarrow> notification" where
  "offer_note from to lid i amt act =
     \<lparr>n_sender = from, n_receiver = to, n_listing = lid, n_offerId = i,
      n_amount = amt, n_action = act\<rparr>"

text \<open>The end of the handler: \<^verbatim>\<open>offer.save()\<close> and the 201 response.\<close>

definition create_finish ::
  "env \<Rightarrow> offer \<Rightarrow> offer \<Rightarrow> auto_response option \<Rightarrow> store
     \<Rightarrow> (error + offer \<times> auto_response option) \<times> store" where
  "create_finish e constructed d ar s =
     (case offer_save (now e) constructed d s of
        None \<Rightarrow> caught ''Create offer error:'' ''Failed to create offer'' s
      | Some (d', s') \<Rightarrow> (Inr (d', ar), s'))"

text \<open>The three branches on \<^verbatim>\<open>checkAutoResponse()\<close>.\<close>

definition create_respond ::
  "env \<Rightarrow> oid \<Rightarrow> product \<Rightarrow> offer \<Rightarrow> store
     \<Rightarrow> (error + offer \<times> auto_response option) \<times> store" where
  "create_respond e buyerId l d s =
     (case checkAutoResponse d of
        Some Accept \<Rightarrow>
          (case product_save (l\<lparr>p_status := Sold, soldTo := Some buyerId,
                                 soldPrice := Some (offerAmount d)\<rparr>) s of
             None \<Rightarrow> caught ''Create offer error:'' ''Failed to create offer'' s
           | Some s1 \<Rightarrow>
               (case notify e (offer_note (p_seller l) buyerId (product_id l) (offer_id d)
                                 (offerAmount d) ''accepted'') s1 of
                  None \<Rightarrow> caught ''Create offer error:'' ''Failed to create offer'' s1
                | Some s2 \<Rightarrow>
                    create_finish e d (d\<lparr>status := Accepted, acceptedAt := Some (now e)\<rparr>)
                      (Some Accept) s2))
      | Some Decline \<Rightarrow>
          (case notify e (offer_note (p_seller l) buyerId (product_id l) (offer_id d)
                            (offerAmount d) ''declined'') s of
             None \<Rightarrow> caught ''Create offer error:'' ''Failed to create offer'' s
           | Some s1 \<Rightarrow>
               create_finish e d (d\<lparr>status := Declined, declinedAt := Some (now e)\<rparr>)
                 (Some Decline) s1)
      | None \<Rightarrow>
          (case notify e (offer_note buyerId (p_seller l) (product_id l) (offer_id d)
                            (offerAmount d) ''created'') s of
             None \<Rightarrow> caught ''Create offer error:'' ''Failed to create offer'' s
           | Some s1 \<Rightarrow> create_finish e d d None s1))"

definition post_offer ::
  "env \<Rightarrow> oid \<Rightarrow> oid \<Rightarrow> rat \<Rightarrow> string option \<Rightarrow> store
     \<Rightarrow> (error + offer \<times> auto_response option) \<times> store" where
  "post_offer e buyerId listingId amt msg s =
     (case product_findById listingId s of
        None \<Rightarrow> (Inl ListingNotFound, s)
      | Some l \<Rightarrow>
          if p_status l \<noteq> Available then (Inl ListingUnavailable, s)
          else if \<not> acceptsOffers l then (Inl OffersNotAccepted, s)
          else if p_seller l = buyerId then (Inl SelfOffer, s)
          else
            (case find (\<lambda>x. listing x = listingId \<and> buyer x = buyerId \<and> status x = Pending)
                    (offers s) of
               None \<Rightarrow>
                 create_respond e buyerId l (new_offer (now e) buyerId l amt msg (offers s)) s
             | Some existing \<Rightarrow>
                 (let hoursSinceOffer =
                        (of_int (now e - createdAt existing) :: rat) / (1000 * 60 * 60)
                  in if hoursSinceOffer < 24
                     then (Inl (WaitHours \<lceil>24 - hoursSinceOffer\<rceil>), s)
                     else
                       (case offer_save (now e) existing (existing\<lparr>status := Withdrawn\<rparr>) s of
                          None \<Rightarrow> caught ''Create offer error:'' ''Failed to create offer'' s
                        | Some (_, s1) \<Rightarrow>
                            create_respond e buyerId l
                              (new_offer (now e) buyerId l amt msg (offers s1)) s1))))"

section \<open>Seller accepts (\<^verbatim>\<open>PUT /api/offers/:id/accept\<close>)\<close>

text \<open>
  \<^verbatim>\<open>Offer.updateMany\<close>: a bulk update in the store. It sets the two fields of its update
  document on every match and runs no save hook.
\<close>

definition decline_others :: "date \<Rightarrow> oid \<Rightarrow> oid \<Rightarrow> store \<Rightarrow> store" where
  "decline_others t lid i s =
     s\<lparr>offers := map (\<lambda>x. if listing x = lid \<and> status x = Pending \<and> offer_id x \<noteq> i
                          then x\<lparr>status := Declined, declinedAt := Some t\<rparr> else x)
                    (offers s)\<rparr>"

text \<open>
  After the offer is saved: the populated listing is marked sold, the other pending
  offers are declined, the buyer is notified. A listing that no longer exists makes
  \<^verbatim>\<open>listing.status = 'sold'\<close> throw.
\<close>

definition accept_listing ::
  "env \<Rightarrow> offer \<Rightarrow> product option \<Rightarrow> store \<Rightarrow> (error + offer) \<times> store" where
  "accept_listing e d populated s =
     (case populated of
        None \<Rightarrow> caught ''Accept offer error:'' ''Failed to accept offer'' s
      | Some l \<Rightarrow>
          (case product_save (l\<lparr>p_status := Sold, soldTo := Some (buyer d),
                                 soldPrice := Some (offerAmount d),
                                 soldAt := Some (now e)\<rparr>) s of
             None \<Rightarrow> caught ''Accept offer error:'' ''Failed to accept offer'' s
           | Some s1 \<Rightarrow>
               (let s2 = decline_others (now e) (product_id l) (offer_id d) s1
                in case notify e (offer_note (seller d) (buyer d) (product_id l) (offer_id d)
                                    (offerAmount d) ''accepted'') s2 of
                     None \<Rightarrow> caught ''Accept offer error:'' ''Failed to accept offer'' s2
                   | Some s3 \<Rightarrow> (Inr d, s3))))"

definition put_accept :: "env \<Rightarrow> oid \<Rightarrow> oid \<Rightarrow> store \<Rightarrow> (error + offer) \<times> store" where
  "put_accept e userId offerId s =
     (case offer_findById offerId s of
        None \<Rightarrow> (Inl OfferNotFound, s)
      | Some d \<Rightarrow>
          if seller d \<noteq> userId then (Inl NotAuthorized, s)
          else if status d \<noteq> Pending then (Inl NotPending, s)
          else if isExpired (now e) d then
            (case offer_save (now e) d (d\<lparr>status := Expired\<rparr>) s of
               None \<Rightarrow> caught ''Accept offer error:'' ''Failed to accept offer'' s
             | Some (_, s1) \<Rightarrow> (Inl OfferExpired, s1))
          else
            (case offer_save (now e) d (d\<lparr>status := Accepted, acceptedAt := Some (now e)\<rparr>) s of
               None \<Rightarrow> caught ''Accept offer error:'' ''Failed to accept offer'' s
             | Some (d1, s1) \<Rightarrow> accept_listing e d1 (product_findById (listing d) s) s1))"

section \<open>Seller declines (\<^verbatim>\<open>PUT /api/offers/:id/decline\<close>)\<close>

definition put_decline :: "env \<Rightarrow> oid \<Rightarrow> oid \<Rightarrow> store \<Rightarrow> (error + offer) \<times> store" where
  "put_decline e userId offerId s =
     (case offer_findById offerId s of
        None \<Rightarrow> (Inl OfferNotFound, s)
      | Some d \<Rightarrow>
          if seller d \<noteq> userId then (Inl NotAuthorized, s)
          else if status d \<noteq> Pending then (Inl NotPending, s)
          else
            (case offer_save (now e) d (d\<lparr>status := Declined, declinedAt := Some (now e)\<rparr>) s of
               None \<Rightarrow> caught ''Decline offer error:'' ''Failed to decline offer'' s
             | Some (d1, s1) \<Rightarrow>
                 (case product_findById (listing d) s of
                    None \<Rightarrow> caught ''Decline offer error:'' ''Failed to decline offer'' s1
                  | Some l \<Rightarrow>
                      (case notify e (offer_note (seller d1) (buyer d1) (product_id l)
                                        (offer_id d1) (offerAmount d1) ''declined'') s1 of
                         None \<Rightarrow> caught ''Decline offer error:'' ''Failed to decline offer'' s1
                       | Some s2 \<Rightarrow> (Inr d1, s2)))))"

section \<open>Seller counters (\<^verbatim>\<open>PUT /api/offers/:id/counter\<close>)\<close>

definition put_counter ::
  "env \<Rightarrow> oid \<Rightarrow> oid \<Rightarrow> rat \<Rightarrow> string option \<Rightarrow> store \<Rightarrow> (error + offer) \<times> store" where
  "put_counter e userId offerId counterAmount counterMessage s =
     (case offer_findById offerId s of
        None \<Rightarrow> (Inl OfferNotFound, s)
      | Some d \<Rightarrow>
          if seller d \<noteq> userId then (Inl NotAuthorized, s)
          else if status d \<noteq> Pending then (Inl NotPending, s)
          else if counterAmount \<le> offerAmount d then (Inl CounterTooLow, s)
          else if originalPrice d < counterAmount then (Inl CounterTooHigh, s)
          else
            (case offer_save (now e) d
                    (d\<lparr>status := Countered,
                       counterOffer := Some \<lparr>c_amount = counterAmount,
                                              c_message = counterMessage,
                                              c_timestamp = now e\<rparr>,
                       expiresAt := now e + 48 * 60 * 60 * 1000\<rparr>) s of
               None \<Rightarrow> caught ''Counter offer error:'' ''Failed to counter offer'' s
             | Some (d1, s1) \<Rightarrow>
                 (case product_findById (listing d) s of
                    None \<Rightarrow> caught ''Counter offer error:'' ''Failed to counter offer'' s1
                  | Some l \<Rightarrow>
                      (case notify e (offer_note (seller d1) (buyer d1) (product_id l)
                                        (offer_id d1) counterAmount ''countered'') s1 of
                         None \<Rightarrow> caught ''Counter offer error:'' ''Failed to counter offer'' s1
                       | Some s2 \<Rightarrow> (Inr d1, s2)))))"

section \<open>Buyer withdraws (\<^verbatim>\<open>PUT /api/offers/:id/withdraw\<close>)\<close>

definition put_withdraw :: "env \<Rightarrow> oid \<Rightarrow> oid \<Rightarrow> store \<Rightarrow> (error + offer) \<times> store" where
  "put_withdraw e userId offerId s =
     (case offer_findById offerId s of
        None \<Rightarrow> (Inl OfferNotFound, s)
      | Some d \<Rightarrow>
          if buyer d \<noteq> userId then (Inl NotAuthorized, s)
          else if status d \<noteq> Pending \<and> status d \<noteq> Countered then (Inl CannotWithdraw, s)
          else
            (case offer_save (now e) d (d\<lparr>status := Withdrawn\<rparr>) s of
               None \<Rightarrow> caught ''Withdraw offer error:'' ''Failed to withdraw offer'' s
             | Some (d1, s1) \<Rightarrow> (Inr d1, s1)))"

section \<open>Buyer answers a counter (\<^verbatim>\<open>PUT /api/offers/:id/respond-counter\<close>)\<close>

text \<open>
  Accepting a counter that carries no amount assigns \<^verbatim>\<open>undefined\<close> to the required
  \<^verbatim>\<open>offerAmount\<close>, which the save rejects.
\<close>

definition put_respond_counter ::
  "env \<Rightarrow> oid \<Rightarrow> oid \<Rightarrow> bool \<Rightarrow> store \<Rightarrow> (error + offer) \<times> store" where
  "put_respond_counter e userId offerId accept s =
     (case offer_findById offerId s of
        None \<Rightarrow> (Inl OfferNotFound, s)
      | Some d \<Rightarrow>
          if buyer d \<noteq> userId then (Inl NotAuthorized, s)
          else if status d \<noteq> Countered then (Inl NoCounter, s)
          else if accept then
            (case counterOffer d of
               None \<Rightarrow> caught ''Respond to counter error:'' ''Failed to respond to counter offer'' s
             | Some c \<Rightarrow>
                 (case offer_save (now e) d
                         (d\<lparr>status := Accepted, acceptedAt := Some (now e),
                            offerAmount := c_amount c\<rparr>) s of
                    None \<Rightarrow>
                      caught ''Respond to counter error:'' ''Failed to respond to counter offer'' s
                  | Some (d1, s1) \<Rightarrow>
                      (case product_findById (listing d) s of
                         None \<Rightarrow>
                           caught ''Respond to counter error:''
                             ''Failed to respond to counter offer'' s1
                       | Some l \<Rightarrow>
                           (case product_save (l\<lparr>p_status := Sold, soldTo := Some (buyer d1),
                                                  soldPrice := Some (c_amount c),
                                                  soldAt := Some (now e)\<rparr>) s1 of
                              None \<Rightarrow>
                                caught ''Respond to counter error:''
                                  ''Failed to respond to counter offer'' s1
                            | Some s2 \<Rightarrow>
                                (case notify e (offer_note (buyer d1) (seller d1) (product_id l)
                                                  (offer_id d1) (c_amount c) ''accepted'') s2 of
                                   None \<Rightarrow>
                                     caught ''Respond to counter error:''
                                       ''Failed to respond to counter offer'' s2
                                 | Some s3 \<Rightarrow> (Inr d1, s3))))))
          else
            (case offer_save (now e) d (d\<lparr>status := Declined, declinedAt := Some (now e)\<rparr>) s of
               None \<Rightarrow>
                 caught ''Respond to counter error:'' ''Failed to respond to counter offer'' s
             | Some (d1, s1) \<Rightarrow> (Inr d1, s1)))"

section \<open>Expiry: the seller's list and the hourly job\<close>

text \<open>
  \<^verbatim>\<open>GET /api/offers/received\<close> lists the seller's offers, newest first, and on the way
  saves every expired one as \<open>expired\<close>; a save that rejects ends the loop in the
  \<^verbatim>\<open>catch\<close> block. The response carries the offers and four counts.
\<close>

record offer_stats =
  n_pending :: nat
  n_accepted :: nat
  n_declined :: nat
  n_expired :: nat

definition stats_of :: "offer list \<Rightarrow> offer_stats" where
  "stats_of xs =
     \<lparr>n_pending = length (filter (\<lambda>x. status x = Pending) xs),
      n_accepted = length (filter (\<lambda>x. status x = Accepted) xs),
      n_declined = length (filter (\<lambda>x. status x = Declined) xs),
      n_expired = length (filter (\<lambda>x. status x = Expired) xs)\<rparr>"

fun received_loop :: "date \<Rightarrow> offer list \<Rightarrow> store \<Rightarrow> offer list option \<times> store" where
  "received_loop t [] s = (Some [], s)"
| "received_loop t (d # ds) s =
     (if isExpired t d
      then (case offer_save t d (d\<lparr>status := Expired\<rparr>) s of
              None \<Rightarrow> (None, s)
            | Some (d', s1) \<Rightarrow>
                (case received_loop t ds s1 of
                   (None, s2) \<Rightarrow> (None, s2)
                 | (Some r, s2) \<Rightarrow> (Some (d' # r), s2)))
      else (case received_loop t ds s of
              (None, s2) \<Rightarrow> (None, s2)
            | (Some r, s2) \<Rightarrow> (Some (d # r), s2)))"

definition get_received ::
  "env \<Rightarrow> oid \<Rightarrow> string option \<Rightarrow> oid option \<Rightarrow> store
     \<Rightarrow> (error + offer list \<times> offer_stats) \<times> store" where
  "get_received e sellerId st lid s =
     (let found = rev (sort_key createdAt
                    (filter (\<lambda>x. seller x = sellerId
                                \<and> (case st of None \<Rightarrow> True
                                    | Some q \<Rightarrow> q = [] \<or> status_name (status x) = q)
                                \<and> (case lid of None \<Rightarrow> True | Some l \<Rightarrow> listing x = l))
                       (offers s)))
      in case received_loop (now e) found s of
           (None, s1) \<Rightarrow> caught ''Get received offers error:'' ''Failed to get offers'' s1
         | (Some r, s1) \<Rightarrow> (Inr (r, stats_of r), s1))"

text \<open>
  The hourly job of \<^verbatim>\<open>server.js\<close>: every pending offer past its expiry is saved as
  \<open>expired\<close> and the buyer is notified; the first failure ends the run and is logged.
\<close>

fun expired_loop :: "env \<Rightarrow> offer list \<Rightarrow> store \<Rightarrow> bool \<times> store" where
  "expired_loop e [] s = (True, s)"
| "expired_loop e (d # ds) s =
     (case offer_save (now e) d (d\<lparr>status := Expired\<rparr>) s of
        None \<Rightarrow> (False, s)
      | Some (d', s1) \<Rightarrow>
          (case product_findById (listing d) s1 of
             None \<Rightarrow> (False, s1)
           | Some l \<Rightarrow>
               (case notify e (offer_note (seller d') (buyer d') (product_id l) (offer_id d')
                                 (offerAmount d') ''expired'') s1 of
                  None \<Rightarrow> (False, s1)
                | Some s2 \<Rightarrow> expired_loop e ds s2)))"

definition expired_offers_job :: "env \<Rightarrow> store \<Rightarrow> store" where
  "expired_offers_job e s =
     (case expired_loop e (filter (\<lambda>x. status x = Pending \<and> expiresAt x < now e) (offers s)) s of
        (True, s1) \<Rightarrow> s1
      | (False, s1) \<Rightarrow> s1\<lparr>logs := logs s1 @ [''Error processing expired offers:'']\<rparr>)"

section \<open>The pending offers of a buyer on a listing\<close>

text \<open>
  The (listing, buyer) pairs of the pending offers, in store order, and the invariant
  that no pair occurs twice.
\<close>

definition pending_keys :: "offer list \<Rightarrow> (oid \<times> oid) list" where
  "pending_keys xs = map (\<lambda>x. (listing x, buyer x)) (filter (\<lambda>x. status x = Pending) xs)"

definition one_pending :: "store \<Rightarrow> bool" where
  "one_pending s = distinct (pending_keys (offers s))"

section \<open>Example scenarios\<close>

text \<open>
  A listing priced at 100 that takes offers, owned by user 10, with the two thresholds as
  parameters; the shop that holds this listing and nothing else; what a pending offer
  made on it at time 0 looks like; a run at a given time, with the notification sink
  working or down.
\<close>

definition demo_listing :: "rat option \<Rightarrow> rat option \<Rightarrow> product" where
  "demo_listing minOffer autoAccept =
     \<lparr>product_id = 1, p_seller = 10, price = 100, acceptsOffers = True,
      p_minimumOffer = minOffer, p_autoAcceptPrice = autoAccept, p_status = Available,
      soldTo = None, soldPrice = None, soldAt = None, images = 1\<rparr>"

definition shop :: "product \<Rightarrow> store" where
  "shop l = \<lparr>offers = [], listings = [l], messages = [], logs = []\<rparr>"

definition demo_offer :: "oid \<Rightarrow> oid \<Rightarrow> rat \<Rightarrow> offer_status \<Rightarrow> offer" where
  "demo_offer i b amt st =
     \<lparr>offer_id = i, listing = 1, buyer = b, seller = 10, offerAmount = amt,
      originalPrice = 100, message = None, status = st, counterOffer = None,
      expiresAt = 172800000, acceptedAt = None, declinedAt = None,
      autoAcceptPrice = None, minimumOffer = None, history = [], createdAt = 0\<rparr>"

definition at_time :: "date \<Rightarrow> env" where
  "at_time t = \<lparr>now = t, notify_fails = False\<rparr>"

definition sink_down :: "date \<Rightarrow> env" where
  "sink_down t = \<lparr>now = t, notify_fails = True\<rparr>"

text \<open>
  Creation runs in the empty shop: an offer of 60 on the listing with
  \<open>minimumOffer = 80\<close> and \<open>autoAcceptPrice = 50\<close>, and an offer of 60 on the listing
  without thresholds.
\<close>

definition below_minimum_run :: "(error + offer \<times> auto_response option) \<times> store" where
  "below_minimum_run =
     post_offer (at_time 1000) 20 1 60 None (shop (demo_listing (Some 80) (Some 50)))"

definition plain_creation_run :: "(error + offer \<times> auto_response option) \<times> store" where
  "plain_creation_run = post_offer (at_time 1000) 20 1 60 None (shop (demo_listing None None))"

text \<open>An offer of 5 on the listing whose \<open>autoAcceptPrice\<close> is stored as 0.\<close>

definition zero_threshold_run :: "(error + offer \<times> auto_response option) \<times> store" where
  "zero_threshold_run = post_offer (at_time 1000) 20 1 5 None (shop (demo_listing None (Some 0)))"

text \<open>
  Stores reached from the empty shop (no thresholds): buyer 20 has offered 60 at time 0;
  then buyer 21 has offered 70 as well; or, instead, the seller has countered the first
  offer at 80, one second after it was made.
\<close>

definition haggle :: store where
  "haggle = snd (post_offer (at_time 0) 20 1 60 None (shop (demo_listing None None)))"

definition two_bidders :: store where
  "two_bidders = snd (post_offer (at_time 0) 21 1 70 None haggle)"

definition countered_at_80 :: store where
  "countered_at_80 = snd (put_counter (at_time 1000) 10 1 80 None haggle)"

text \<open>
  The seller accepts the first of the two offers, with the sink working and with the
  sink down; the buyer whose offer stands countered makes a second offer after an hour.
\<close>

definition sibling_run :: "(error + offer) \<times> store" where
  "sibling_run = put_accept (at_time 1000) 10 1 two_bidders"


definition countered_prior_run :: "(error + offer \<times> auto_response option) \<times> store" where
  "countered_prior_run = post_offer (at_time 3600000) 20 1 70 None countered_at_80"

text \<open>The definitions a concrete run unfolds, and the example stores written out.\<close>

lemmas run_defs = post_offer_def create_respond_def create_finish_def new_offer_def
  offer_note_def checkAutoResponse_def offer_save_def offer_valid_def history_hook_def
  history_actions_def product_save_def product_valid_def notify_def caught_def
  put_offer_def put_product_def fresh_id_def offer_findById_def product_findById_def
  demo_listing_def demo_offer_def shop_def at_time_def sink_down_def Let_def

lemmas put_defs = put_accept_def accept_listing_def decline_others_def put_decline_def
  put_counter_def put_withdraw_def put_respond_counter_def isExpired_def

lemma haggle_store:
  "haggle = \<lparr>offers = [demo_offer 1 20 60 Pending], listings = [demo_listing None None],
              messages = [offer_note 20 10 1 1 60 ''created''], logs = []\<rparr>"
  by (simp add: haggle_def run_defs)

lemma two_bidders_store:
  "two_bidders =
     \<lparr>offers = [demo_offer 1 20 60 Pending, demo_offer 2 21 70 Pending],
      listings = [demo_listing None None],
      messages = [offer_note 20 10 1 1 60 ''created'', offer_note 21 10 1 2 70 ''created''],
      logs = []\<rparr>"
  by (simp add: two_bidders_def haggle_store) (simp add: run_defs)

lemma countered_store:
  "countered_at_80 =
     \<lparr>offers = [(demo_offer 1 20 60 Countered)
                  \<lparr>counterOffer := Some \<lparr>c_amount = 80, c_message = None, c_timestamp = 1000\<rparr>,
                    expiresAt := 172801000,
                    history := [\<lparr>action = ''countered'', h_amount = Some 80, h_message = None,
                                 h_timestamp = 1000, h_by = 10\<rparr>]\<rparr>],
      listings = [demo_listing None None],
      messages = [offer_note 20 10 1 1 60 ''created'', offer_note 10 20 1 1 80 ''countered''],
      logs = []\<rparr>"
  by (simp add: countered_at_80_def haggle_store) (simp add: run_defs put_defs)

section \<open>Facts about the store\<close>

lemma caught_not_Inr [simp]: "caught tag msg s \<noteq> (Inr x, s')"
  by (simp add: caught_def)

lemma find_mem_ids: "find (\<lambda>x. f x = i) xs = Some y \<Longrightarrow> i \<in> f ` set xs"
  by (induction xs) (auto split: if_splits)

lemma put_offer_found:
  "offer_findById i s = Some d \<Longrightarrow> offer_id d' = i \<Longrightarrow>
   put_offer d' (offers s) = map (\<lambda>x. if offer_id x = i then d' else x) (offers s)"
  by (auto simp: offer_findById_def put_offer_def dest: find_mem_ids)

lemma put_product_found:
  "product_findById i s = Some l \<Longrightarrow> product_id l' = i \<Longrightarrow>
   put_product l' (listings s) = map (\<lambda>x. if product_id x = i then l' else x) (listings s)"
  by (auto simp: product_findById_def put_product_def dest: find_mem_ids)

lemma fresh_id_gt: "x \<in> set xs \<Longrightarrow> offer_id x < fresh_id xs"
  by (induction xs) (auto simp: fresh_id_def)

lemma fresh_id_notin: "fresh_id xs \<notin> offer_id ` set xs"
  using fresh_id_gt by fastforce

lemma find_id_Some: "find (\<lambda>x. f x = i) xs = Some y \<Longrightarrow> f y = i \<and> y \<in> set xs"
  by (induction xs) (auto split: if_splits)

lemma find_map_replace:
  "i \<in> f ` set xs \<Longrightarrow> f d = i \<Longrightarrow> find (\<lambda>x. f x = i) (map (\<lambda>x. if f x = i then d else x) xs) = Some d"
  by (induction xs) auto

lemma find_append_new:
  "i \<notin> f ` set xs \<Longrightarrow> f d = i \<Longrightarrow> find (\<lambda>x. f x = i) (xs @ [d]) = Some d"
  by (induction xs) auto

lemma find_put_offer: "find (\<lambda>x. offer_id x = offer_id d) (put_offer d xs) = Some d"
  by (simp add: put_offer_def find_map_replace find_append_new)

lemma find_put_product: "find (\<lambda>x. product_id x = product_id p) (put_product p xs) = Some p"
  by (simp add: put_product_def find_map_replace find_append_new)

lemma find_map_replace_other:
  "i \<noteq> f d \<Longrightarrow> find (\<lambda>x. f x = i) (map (\<lambda>x. if f x = f d then d else x) xs) = find (\<lambda>x. f x = i) xs"
  by (induction xs) auto

lemma find_append_other:
  "i \<noteq> f d \<Longrightarrow> find (\<lambda>x. f x = i) (xs @ [d]) = find (\<lambda>x. f x = i) xs"
  by (induction xs) auto

lemma find_put_offer_other:
  "i \<noteq> offer_id d \<Longrightarrow> find (\<lambda>x. offer_id x = i) (put_offer d xs) = find (\<lambda>x. offer_id x = i) xs"
  by (simp add: put_offer_def find_map_replace_other find_append_other)

lemma create_finish_Inr:
  assumes "create_finish e c d ar s = (Inr (d', ar'), s')"
  shows "offer_valid d \<and> d' = history_hook (now e) c d \<and> ar' = ar
         \<and> s' = s\<lparr>offers := put_offer d' (offers s)\<rparr>"
  using assms by (auto simp: create_finish_def offer_save_def caught_def Let_def split: if_splits)

lemma create_respond_accept:
  assumes "checkAutoResponse d = Some Accept"
      and "create_respond e b l d s = (Inr (d', ar), s')"
  shows "status d' = Accepted \<and> ar = Some Accept
         \<and> offer_findById (offer_id d') s' = Some d'
         \<and> product_findById (product_id l) s'
             = Some (l\<lparr>p_status := Sold, soldTo := Some b, soldPrice := Some (offerAmount d)\<rparr>)"
  using assms
  by (auto simp: create_respond_def product_save_def notify_def caught_def
      offer_findById_def product_findById_def history_hook_def find_put_offer
      find_put_product [of "l\<lparr>p_status := Sold, soldTo := Some b, soldPrice := Some (offerAmount d)\<rparr>", simplified]
      split: option.splits if_splits dest!: create_finish_Inr)

lemma create_respond_decline:
  assumes "checkAutoResponse d = Some Decline"
      and "create_respond e b l d s = (Inr (d', ar), s')"
  shows "status d' = Declined \<and> ar = Some Decline
         \<and> offer_findById (offer_id d') s' = Some d'
         \<and> listings s' = listings s"
  using assms
  by (auto simp: create_respond_def notify_def caught_def
      offer_findById_def history_hook_def find_put_offer
      split: option.splits if_splits dest!: create_finish_Inr)

lemma create_respond_none:
  assumes "checkAutoResponse d = None"
      and "create_respond e b l d s = (Inr (d', ar), s')"
  shows "d' = d \<and> ar = None
         \<and> offer_findById (offer_id d') s' = Some d'
         \<and> listings s' = listings s"
  using assms
  by (auto simp: create_respond_def notify_def caught_def
      offer_findById_def history_hook_def find_put_offer
      split: option.splits if_splits dest!: create_finish_Inr)

lemma create_respond_valid:
  assumes "create_respond e b l d s = (Inr (d', ar), s')"
  shows "1 \<le> offerAmount d"
  using assms
  by (auto simp: create_respond_def notify_def caught_def offer_valid_def
      split: option.splits if_splits auto_response.splits dest!: create_finish_Inr)

lemma offer_save_listings:
  "offer_save t c d s = Some (d', s') \<Longrightarrow> listings s' = listings s"
  by (auto simp: offer_save_def Let_def split: if_splits)

text \<open>The handler reaches the auto-response step with a freshly constructed offer.\<close>

lemma post_offer_Inr:
  assumes "post_offer e b lid amt msg s = (Inr r, s')"
  obtains l s1 where "product_findById lid s = Some l" "product_id l = lid"
    "p_status l = Available" "acceptsOffers l" "p_seller l \<noteq> b"
    "listings s1 = listings s"
    "create_respond e b l (new_offer (now e) b l amt msg (offers s1)) s1 = (Inr r, s')"
proof (cases "product_findById lid s")
  case None
  with assms show ?thesis by (simp add: post_offer_def)
next
  case (Some l)
  note l = this
  then have lid: "product_id l = lid"
    by (auto simp: product_findById_def dest: find_id_Some)
  from assms l have g: "p_status l = Available" "acceptsOffers l" "p_seller l \<noteq> b"
    by (auto simp: post_offer_def split: if_splits)
  show ?thesis
  proof (cases "find (\<lambda>x. listing x = lid \<and> buyer x = b \<and> status x = Pending) (offers s)")
    case None
    with assms l g have "create_respond e b l (new_offer (now e) b l amt msg (offers s)) s = (Inr r, s')"
      by (simp add: post_offer_def)
    with that l lid g show ?thesis by blast
  next
    case (Some ex)
    with assms l g obtain dx s1 where
      sv: "offer_save (now e) ex (ex\<lparr>status := Withdrawn\<rparr>) s = Some (dx, s1)"
      and cr: "create_respond e b l (new_offer (now e) b l amt msg (offers s1)) s1 = (Inr r, s')"
      by (auto simp: post_offer_def Let_def caught_def split: if_splits option.splits)
    from sv have "listings s1 = listings s" by (rule offer_save_listings)
    with that l lid g cr show ?thesis by blast
  qed
qed

text \<open>A save that changes the status appends exactly one history entry, named after it.\<close>

lemma offer_save_appends_entry:
  assumes "offer_save t loaded d s = Some (d', s')" and "status d \<noteq> status loaded"
  shows "length (history d') = Suc (length (history d))
         \<and> action (last (history d')) = status_name (status d)"
  using assms by (auto simp: offer_save_def history_hook_def Let_def split: if_splits)

lemma offer_save_same_status:
  assumes "offer_save t loaded d s = Some (d', s')" and "status d = status loaded"
  shows "d' = d"
  using assms by (auto simp: offer_save_def history_hook_def Let_def split: if_splits)

lemma find_map_fixed:
  assumes "\<And>x. f (g x) = f x" and "\<And>x. f x = i \<Longrightarrow> g x = x"
  shows "find (\<lambda>x. f x = i) (map g xs) = find (\<lambda>x. f x = i) xs"
  using assms by (induction xs) auto

lemma product_valid_update [simp]:
  "product_valid (l\<lparr>p_status := a\<rparr>) = product_valid l"
  "product_valid (l\<lparr>soldTo := b\<rparr>) = product_valid l"
  "product_valid (l\<lparr>soldPrice := c\<rparr>) = product_valid l"
  "product_valid (l\<lparr>soldAt := t\<rparr>) = product_valid l"
  by (simp_all add: product_valid_def split: option.splits)

lemma offer_valid_update [simp]:
  "offer_valid (d\<lparr>status := a\<rparr>) = offer_valid d"
  "offer_valid (d\<lparr>acceptedAt := t\<rparr>) = offer_valid d"
  "offer_valid (d\<lparr>declinedAt := t\<rparr>) = offer_valid d"
  "offer_valid (d\<lparr>counterOffer := co\<rparr>) = offer_valid d"
  "offer_valid (d\<lparr>expiresAt := x\<rparr>) = offer_valid d"
  by (simp_all add: offer_valid_def split: option.splits)

lemma history_hook_fields [simp]:
  "offer_id (history_hook t c d) = offer_id d"
  "listing (history_hook t c d) = listing d"
  "buyer (history_hook t c d) = buyer d"
  "seller (history_hook t c d) = seller d"
  "status (history_hook t c d) = status d"
  "offerAmount (history_hook t c d) = offerAmount d"
  "originalPrice (history_hook t c d) = originalPrice d"
  "message (history_hook t c d) = message d"
  "counterOffer (history_hook t c d) = counterOffer d"
  "expiresAt (history_hook t c d) = expiresAt d"
  by (simp_all add: history_hook_def)

text \<open>What a successful accept has done.\<close>

lemma put_accept_Inr:
  assumes "put_accept e u i s = (Inr d1, s')"
  obtains d l where "offer_findById i s = Some d" "seller d = u" "status d = Pending"
    "\<not> isExpired (now e) d" "offer_valid d"
    "d1 = history_hook (now e) d (d\<lparr>status := Accepted, acceptedAt := Some (now e)\<rparr>)"
    "product_findById (listing d) s = Some l"
    "product_valid l" "\<not> notify_fails e"
    "offers s' = map (\<lambda>x. if listing x = listing d \<and> status x = Pending \<and> offer_id x \<noteq> i
                          then x\<lparr>status := Declined, declinedAt := Some (now e)\<rparr> else x)
                  (map (\<lambda>x. if offer_id x = i then d1 else x) (offers s))"
    "listings s' = put_product (l\<lparr>p_status := Sold, soldTo := Some (buyer d),
                                 soldPrice := Some (offerAmount d),
                                 soldAt := Some (now e)\<rparr>) (listings s)"
proof -
  from assms obtain d where d: "offer_findById i s = Some d"
    by (auto simp: put_accept_def split: option.splits)
  then have id: "offer_id d = i" by (auto simp: offer_findById_def dest: find_id_Some)
  from assms d have g: "seller d = u" "status d = Pending" "\<not> isExpired (now e) d"
    by (auto simp: put_accept_def split: if_splits option.splits)
  from assms d g have v: "offer_valid d"
    by (auto simp: put_accept_def offer_save_def offer_valid_def caught_def split: if_splits)
  let ?d1 = "history_hook (now e) d (d\<lparr>status := Accepted, acceptedAt := Some (now e)\<rparr>)"
  let ?s1 = "s\<lparr>offers := put_offer ?d1 (offers s)\<rparr>"
  from v have sv: "offer_save (now e) d (d\<lparr>status := Accepted, acceptedAt := Some (now e)\<rparr>) s
      = Some (?d1, ?s1)"
    by (simp add: offer_save_def offer_valid_def Let_def)
  with assms d g have al: "accept_listing e ?d1 (product_findById (listing d) s) ?s1 = (Inr d1, s')"
    by (simp add: put_accept_def)
  then obtain l where l: "product_findById (listing d) s = Some l"
    by (auto simp: accept_listing_def caught_def split: option.splits)
  then have lid: "product_id l = listing d"
    by (auto simp: product_findById_def dest: find_id_Some)
  have d1id: "offer_id ?d1 = i" "buyer ?d1 = buyer d" "offerAmount ?d1 = offerAmount d"
    using id by (simp_all add: history_hook_def)
  from al l have pv: "product_valid l" and nf: "\<not> notify_fails e" and d1: "d1 = ?d1"
    by (auto simp: accept_listing_def product_save_def product_valid_def notify_def caught_def
        Let_def split: option.splits if_splits)
  from al l pv nf lid d1id have
    "offers s' = offers (decline_others (now e) (listing d) i ?s1)"
    and ls: "listings s' = put_product (l\<lparr>p_status := Sold, soldTo := Some (buyer d),
                                 soldPrice := Some (offerAmount d),
                                 soldAt := Some (now e)\<rparr>) (listings s)"
    by (auto simp: accept_listing_def product_save_def product_valid_def notify_def 
        decline_others_def Let_def split: option.splits if_splits)
  then have "offers s' = map (\<lambda>x. if listing x = listing d \<and> status x = Pending \<and> offer_id x \<noteq> i
                          then x\<lparr>status := Declined, declinedAt := Some (now e)\<rparr> else x)
                  (map (\<lambda>x. if offer_id x = i then d1 else x) (offers s))"
    unfolding d1 decline_others_def put_offer_found [OF d d1id(1)] by simp
  from that [OF d g v d1 l pv nf this ls] show ?thesis .
qed

section \<open>Facts about the pending offers\<close>

lemma pending_keys_append:
  "pending_keys (xs @ [d]) =
     pending_keys xs @ (if status d = Pending then [(listing d, buyer d)] else [])"
  by (simp add: pending_keys_def)

lemma pending_keys_mem:
  "k \<in> set (pending_keys xs) \<longleftrightarrow> (\<exists>x\<in>set xs. status x = Pending \<and> (listing x, buyer x) = k)"
  by (auto simp: pending_keys_def)

lemma pending_keys_replace:
  assumes "status d \<noteq> Pending"
  shows "set (pending_keys (map (\<lambda>x. if offer_id x = i then d else x) xs)) \<subseteq> set (pending_keys xs)
         \<and> (distinct (pending_keys xs)
              \<longrightarrow> distinct (pending_keys (map (\<lambda>x. if offer_id x = i then d else x) xs)))"
  using assms by (induction xs) (auto simp: pending_keys_def)

lemma pending_unique:
  assumes "distinct (pending_keys xs)" "x \<in> set xs" "y \<in> set xs"
    "status x = Pending" "status y = Pending" "listing x = listing y" "buyer x = buyer y"
  shows "x = y"
proof -
  from assms(1) have "inj_on (\<lambda>x. (listing x, buyer x)) (set (filter (\<lambda>x. status x = Pending) xs))"
    by (simp add: pending_keys_def distinct_map)
  with assms(2-) show ?thesis by (auto dest: inj_onD)
qed

lemma find_pending_Some:
  "find (\<lambda>x. listing x = lid \<and> buyer x = b \<and> status x = Pending) xs = Some ex
   \<Longrightarrow> ex \<in> set xs \<and> listing ex = lid \<and> buyer ex = b \<and> status ex = Pending"
  by (induction xs) (auto split: if_splits)

lemma find_pending_None:
  "find (\<lambda>x. listing x = lid \<and> buyer x = b \<and> status x = Pending) xs = None
   \<Longrightarrow> (lid, b) \<notin> set (pending_keys xs)"
  by (auto simp: find_None_iff pending_keys_def)

lemma withdrawn_frees_key:
  assumes "distinct (pending_keys xs)"
      and "find (\<lambda>x. listing x = lid \<and> buyer x = b \<and> status x = Pending) xs = Some ex"
      and "status d \<noteq> Pending" and "offer_id d = offer_id ex"
  shows "(lid, b) \<notin> set (pending_keys (put_offer d xs)) \<and> distinct (pending_keys (put_offer d xs))"
proof -
  from assms(2) have ex: "ex \<in> set xs" "listing ex = lid" "buyer ex = b" "status ex = Pending"
    by (auto dest: find_pending_Some)
  then have put: "put_offer d xs = map (\<lambda>x. if offer_id x = offer_id d then d else x) xs"
    using assms(4) by (force simp: put_offer_def)
  have "(lid, b) \<notin> set (pending_keys (map (\<lambda>x. if offer_id x = offer_id d then d else x) xs))"
  proof
    assume "(lid, b) \<in> set (pending_keys (map (\<lambda>x. if offer_id x = offer_id d then d else x) xs))"
    then obtain y where y: "y \<in> set xs" "offer_id y \<noteq> offer_id d" "status y = Pending"
      "listing y = lid" "buyer y = b"
      using assms(3) by (auto simp: pending_keys_def split: if_splits)
    with pending_unique [OF assms(1) ex(1) y(1)] ex have "ex = y" by simp
    with y(2) assms(4) show False by simp
  qed
  with pending_keys_replace [OF assms(3), of "offer_id d" xs] assms(1) put show ?thesis by simp
qed

lemma create_finish_one_pending:
  assumes "distinct (pending_keys (offers s))"
      and "offer_id d \<notin> offer_id ` set (offers s)"
      and "(listing d, buyer d) \<notin> set (pending_keys (offers s))"
  shows "distinct (pending_keys (offers (snd (create_finish e c d ar s))))"
  using assms
  by (auto simp: create_finish_def offer_save_def caught_def Let_def
      put_offer_def history_hook_def pending_keys_append)

lemma create_respond_one_pending:
  assumes "distinct (pending_keys (offers s))"
      and "offer_id d \<notin> offer_id ` set (offers s)"
      and "(listing d, buyer d) \<notin> set (pending_keys (offers s))"
  shows "one_pending (snd (create_respond e b l d s))"
  using assms
  by (auto simp: create_respond_def product_save_def notify_def caught_def one_pending_def
      create_finish_one_pending split: option.splits auto_response.splits)

lemma post_offer_one_pending:
  assumes "one_pending s"
  shows "one_pending (snd (post_offer e b lid amt msg s))"
proof (cases "product_findById lid s")
  case None
  with assms show ?thesis by (simp add: post_offer_def)
next
  case (Some l)
  then have lid: "product_id l = lid"
    by (auto simp: product_findById_def dest: find_id_Some)
  show ?thesis
  proof (cases "find (\<lambda>x. listing x = lid \<and> buyer x = b \<and> status x = Pending) (offers s)")
    case None
    from find_pending_None [OF this] assms lid
    have "one_pending (snd (create_respond e b l (new_offer (now e) b l amt msg (offers s)) s))"
      by (intro create_respond_one_pending)
         (simp_all add: one_pending_def new_offer_def fresh_id_notin)
    with Some None assms show ?thesis by (simp add: post_offer_def)
  next
    case ex: (Some ex)
    show ?thesis
    proof (cases "offer_save (now e) ex (ex\<lparr>status := Withdrawn\<rparr>) s")
      case None
      with Some ex assms show ?thesis
        by (simp add: post_offer_def Let_def caught_def one_pending_def)
    next
      case sv: (Some r)
      obtain dx s1 where r: "r = (dx, s1)" by (cases r)
      from sv r have s1: "offers s1 = put_offer dx (offers s)" "status dx \<noteq> Pending"
        "offer_id dx = offer_id ex"
        by (auto simp: offer_save_def Let_def history_hook_def split: if_splits)
      from withdrawn_frees_key [OF assms [unfolded one_pending_def] ex s1(2,3)] s1(1) lid
      have "one_pending (snd (create_respond e b l (new_offer (now e) b l amt msg (offers s1)) s1))"
        by (intro create_respond_one_pending)
           (simp_all add: new_offer_def fresh_id_notin)
      with Some ex sv r assms show ?thesis by (simp add: post_offer_def Let_def)
    qed
  qed
qed

lemma pending_keys_map_subset:
  assumes "\<And>x. x \<in> set xs \<Longrightarrow> f x = x \<or> status (f x) \<noteq> Pending"
  shows "set (pending_keys (map f xs)) \<subseteq> set (pending_keys xs)"
proof
  fix k assume "k \<in> set (pending_keys (map f xs))"
  then obtain x where x: "x \<in> set xs" "status (f x) = Pending" "(listing (f x), buyer (f x)) = k"
    by (auto simp: pending_keys_mem)
  with assms [of x] have "f x = x" by simp
  with x show "k \<in> set (pending_keys xs)" by (auto simp: pending_keys_mem)
qed

lemma pending_keys_map:
  assumes "\<And>x. x \<in> set xs \<Longrightarrow> f x = x \<or> status (f x) \<noteq> Pending"
      and "distinct (pending_keys xs)"
  shows "distinct (pending_keys (map f xs))"
  using assms
proof (induction xs)
  case Nil
  then show ?case by (simp add: pending_keys_def)
next
  case (Cons a xs)
  have sub: "set (pending_keys (map f xs)) \<subseteq> set (pending_keys xs)"
    using Cons.prems(1) by (intro pending_keys_map_subset) simp
  have ih: "distinct (pending_keys (map f xs))"
    using Cons by (auto simp: pending_keys_def split: if_splits)
  have cons: "pending_keys (f a # map f xs) =
      (if status (f a) = Pending then [(listing (f a), buyer (f a))] else []) @ pending_keys (map f xs)"
    by (simp add: pending_keys_def)
  show ?case
  proof (cases "status (f a) = Pending")
    case True
    with Cons.prems(1) [of a] have fa: "f a = a" by simp
    with True Cons.prems(2) have "(listing a, buyer a) \<notin> set (pending_keys xs)"
      by (simp add: pending_keys_def)
    with sub have "(listing a, buyer a) \<notin> set (pending_keys (map f xs))" by blast
    with ih True fa cons show ?thesis by simp
  next
    case False
    with ih cons show ?thesis by simp
  qed
qed

lemma offer_save_one_pending:
  assumes "offer_save t d d' s = Some (d1, s1)"
      and "status d' \<noteq> Pending"
      and "offer_findById i s = Some d" and "offer_id d' = i"
      and "one_pending s"
  shows "one_pending s1"
proof -
  from assms(1) have s1: "s1 = s\<lparr>offers := put_offer d1 (offers s)\<rparr>"
    and d1: "status d1 = status d'" "offer_id d1 = offer_id d'"
    by (auto simp: offer_save_def Let_def split: if_splits)
  from put_offer_found [OF assms(3), of d1] d1 assms(4)
  have "put_offer d1 (offers s) = map (\<lambda>x. if offer_id x = i then d1 else x) (offers s)"
    by simp
  with pending_keys_map [of "offers s" "\<lambda>x. if offer_id x = i then d1 else x"] d1 assms(2,5)
  show ?thesis by (simp add: s1 one_pending_def)
qed

lemma decline_others_one_pending:
  "one_pending s \<Longrightarrow> one_pending (decline_others t l i s)"
  using pending_keys_map [of "offers s" "\<lambda>x. if listing x = l \<and> status x = Pending \<and> offer_id x \<noteq> i
                          then x\<lparr>status := Declined, declinedAt := Some t\<rparr> else x"]
  by (simp add: one_pending_def decline_others_def)

lemma one_pending_other_fields [simp]:
  "one_pending (s\<lparr>listings := ls\<rparr>) = one_pending s"
  "one_pending (s\<lparr>messages := ms\<rparr>) = one_pending s"
  "one_pending (s\<lparr>logs := lg\<rparr>) = one_pending s"
  by (simp_all add: one_pending_def)

lemma put_accept_one_pending:
  assumes "one_pending s"
  shows "one_pending (snd (put_accept e u i s))"
proof (cases "offer_findById i s")
  case None
  with assms show ?thesis by (simp add: put_accept_def)
next
  case (Some d)
  then have id: "offer_id d = i" by (auto simp: offer_findById_def dest: find_id_Some)
  have sv: "\<And>d' d1 s1. offer_save (now e) d d' s = Some (d1, s1) \<Longrightarrow> status d' \<noteq> Pending
      \<Longrightarrow> offer_id d' = i \<Longrightarrow> one_pending s1"
    using offer_save_one_pending [OF _ _ Some _ assms] by blast
  have al: "\<And>d1 p s1. one_pending s1 \<Longrightarrow> one_pending (snd (accept_listing e d1 p s1))"
    by (simp add: accept_listing_def caught_def product_save_def notify_def Let_def
        decline_others_one_pending split: option.splits)
  show ?thesis
    using Some assms id
    by (auto simp: put_accept_def caught_def split: option.splits intro!: al dest!: sv)
qed

lemma put_decline_one_pending:
  assumes "one_pending s"
  shows "one_pending (snd (put_decline e u i s))"
proof (cases "offer_findById i s")
  case None
  with assms show ?thesis by (simp add: put_decline_def)
next
  case (Some d)
  then have id: "offer_id d = i" by (auto simp: offer_findById_def dest: find_id_Some)
  have sv: "\<And>d' d1 s1. offer_save (now e) d d' s = Some (d1, s1) \<Longrightarrow> status d' \<noteq> Pending
      \<Longrightarrow> offer_id d' = i \<Longrightarrow> one_pending s1"
    using offer_save_one_pending [OF _ _ Some _ assms] by blast
  show ?thesis
    using Some assms id
    by (auto simp: put_decline_def caught_def notify_def split: option.splits dest!: sv)
qed

lemma put_counter_one_pending:
  assumes "one_pending s"
  shows "one_pending (snd (put_counter e u i c m s))"
proof (cases "offer_findById i s")
  case None
  with assms show ?thesis by (simp add: put_counter_def)
next
  case (Some d)
  then have id: "offer_id d = i" by (auto simp: offer_findById_def dest: find_id_Some)
  have sv: "\<And>d' d1 s1. offer_save (now e) d d' s = Some (d1, s1) \<Longrightarrow> status d' \<noteq> Pending
      \<Longrightarrow> offer_id d' = i \<Longrightarrow> one_pending s1"
    using offer_save_one_pending [OF _ _ Some _ assms] by blast
  show ?thesis
    using Some assms id
    by (auto simp: put_counter_def caught_def notify_def split: option.splits dest!: sv)
qed

lemma put_withdraw_one_pending:
  assumes "one_pending s"
  shows "one_pending (snd (put_withdraw e u i s))"
proof (cases "offer_findById i s")
  case None
  with assms show ?thesis by (simp add: put_withdraw_def)
next
  case (Some d)
  then have id: "offer_id d = i" by (auto simp: offer_findById_def dest: find_id_Some)
  have sv: "\<And>d' d1 s1. offer_save (now e) d d' s = Some (d1, s1) \<Longrightarrow> status d' \<noteq> Pending
      \<Longrightarrow> offer_id d' = i \<Longrightarrow> one_pending s1"
    using offer_save_one_pending [OF _ _ Some _ assms] by blast
  show ?thesis
    using Some assms id
    by (auto simp: put_withdraw_def caught_def split: option.splits dest!: sv)
qed

lemma put_respond_counter_one_pending:
  assumes "one_pending s"
  shows "one_pending (snd (put_respond_counter e u i a s))"
proof (cases "offer_findById i s")
  case None
  with assms show ?thesis by (simp add: put_respond_counter_def)
next
  case (Some d)
  then have id: "offer_id d = i" by (auto simp: offer_findById_def dest: find_id_Some)
  have sv: "\<And>d' d1 s1. offer_save (now e) d d' s = Some (d1, s1) \<Longrightarrow> status d' \<noteq> Pending
      \<Longrightarrow> offer_id d' = i \<Longrightarrow> one_pending s1"
    using offer_save_one_pending [OF _ _ Some _ assms] by blast
  show ?thesis
    using Some assms id
    by (auto simp: put_respond_counter_def caught_def notify_def product_save_def
        split: option.splits dest!: sv)
qed


lemma offer_save_keeps_one_pending:
  assumes "offer_save t d d' s = Some (d1, s1)"
      and "status d' \<noteq> Pending" and "one_pending s"
  shows "one_pending s1"
proof -
  from assms(1) have s1: "s1 = s\<lparr>offers := put_offer d1 (offers s)\<rparr>"
    and d1: "status d1 = status d'"
    by (auto simp: offer_save_def Let_def split: if_splits)
  have "distinct (pending_keys (put_offer d1 (offers s)))"
  proof (cases "offer_id d1 \<in> offer_id ` set (offers s)")
    case True
    with pending_keys_map [of "offers s" "\<lambda>x. if offer_id x = offer_id d1 then d1 else x"]
      d1 assms(2,3)
    show ?thesis by (simp add: put_offer_def one_pending_def)
  next
    case False
    with d1 assms(2,3) show ?thesis
      by (simp add: put_offer_def one_pending_def pending_keys_append)
  qed
  then show ?thesis by (simp add: s1 one_pending_def)
qed

lemma received_loop_one_pending:
  "one_pending s \<Longrightarrow> one_pending (snd (received_loop t ds s))"
proof (induction ds arbitrary: s)
  case Nil
  then show ?case by simp
next
  case (Cons d ds)
  show ?case
  proof (cases "isExpired t d")
    case False
    with Cons.IH [OF Cons.prems] show ?thesis
      by (auto split: prod.splits option.splits)
  next
    case True
    show ?thesis
    proof (cases "offer_save t d (d\<lparr>status := Expired\<rparr>) s")
      case None
      with True Cons.prems show ?thesis by simp
    next
      case (Some r)
      obtain d' s1 where r: "r = (d', s1)" by (cases r)
      from offer_save_keeps_one_pending [OF Some [unfolded r] _ Cons.prems]
      have "one_pending s1" by simp
      from Cons.IH [OF this] True Some r show ?thesis
        by (auto split: prod.splits option.splits)
    qed
  qed
qed

lemma get_received_one_pending:
  assumes "one_pending s"
  shows "one_pending (snd (get_received e u st lid s))"
proof -
  define found where "found = rev (sort_key createdAt
                    (filter (\<lambda>x. seller x = u
                                \<and> (case st of None \<Rightarrow> True
                                    | Some q \<Rightarrow> q = [] \<or> status_name (status x) = q)
                                \<and> (case lid of None \<Rightarrow> True | Some l \<Rightarrow> listing x = l))
                       (offers s)))"
  obtain r s1 where l: "received_loop (now e) found s = (r, s1)"
    by (cases "received_loop (now e) found s")
  from received_loop_one_pending [OF assms, of "now e" found] l have "one_pending s1" by simp
  with l show ?thesis
    unfolding get_received_def Let_def found_def [symmetric]
    by (cases r) (simp_all add: caught_def)
qed

lemma expired_loop_one_pending:
  "one_pending s \<Longrightarrow> one_pending (snd (expired_loop e ds s))"
proof (induction ds arbitrary: s)
  case Nil
  then show ?case by simp
next
  case (Cons d ds)
  show ?case
  proof (cases "offer_save (now e) d (d\<lparr>status := Expired\<rparr>) s")
    case None
    with Cons.prems show ?thesis by simp
  next
    case (Some r)
    obtain d' s1 where r: "r = (d', s1)" by (cases r)
    from offer_save_keeps_one_pending [OF Some [unfolded r] _ Cons.prems]
    have s1: "one_pending s1" by simp
    then have "\<And>n. one_pending (snd (expired_loop e ds (s1\<lparr>messages := n\<rparr>)))"
      by (intro Cons.IH) simp
    with s1 Some r show ?thesis
      by (auto simp: notify_def split: option.splits)
  qed
qed

lemma expired_offers_job_one_pending:
  assumes "one_pending s"
  shows "one_pending (expired_offers_job e s)"
proof -
  define found where "found = filter (\<lambda>x. status x = Pending \<and> expiresAt x < now e) (offers s)"
  obtain ok s1 where l: "expired_loop e found s = (ok, s1)"
    by (cases "expired_loop e found s")
  from expired_loop_one_pending [OF assms, of e found] l have "one_pending s1" by simp
  with l show ?thesis
    unfolding expired_offers_job_def found_def [symmetric]
    by (cases ok) simp_all
qed

lemma hours_test:
  "((of_int x :: rat) / (1000 * 60 * 60) < 24) = (x < 24 * 60 * 60 * 1000)"
proof -
  have "((of_int x :: rat) / (1000 * 60 * 60) < 24) = ((of_int x :: rat) < of_int 86400000)"
    by (simp add: divide_less_eq)
  also have "\<dots> = (x < 86400000)" by (simp only: of_int_less_iff)
  finally show ?thesis by simp
qed

lemma create_respond_Inr_offers:
  assumes "create_respond e b l d0 s1 = (Inr (d, ar), s')"
  shows "offers s' = put_offer d (offers s1) \<and> offer_id d = offer_id d0"
  using assms
  by (auto simp: create_respond_def product_save_def notify_def
      split: option.splits if_splits auto_response.splits dest!: create_finish_Inr)

section \<open>Creation: the automatic responses\<close>

text \<open>
  Claim C1, as stated: whenever an offer is created on an available listing that takes
  offers and whose \<open>autoAcceptPrice\<close> is set, with \<open>offerAmount \<ge> autoAcceptPrice\<close>, the
  created offer is \<open>accepted\<close> and the listing is sold to the buyer at \<open>offerAmount\<close>.
  The handler tests the threshold by truthiness (\<^verbatim>\<open>this.autoAcceptPrice && ...\<close>), and the
  listing schema accepts a threshold of 0: on such a listing an offer of 5 meets the
  threshold, stays \<open>pending\<close>, and the listing stays available.
\<close>

theorem zero_threshold_not_auto_accepted:
  "p_autoAcceptPrice (demo_listing None (Some 0)) = Some 0 \<and> (0::rat) \<le> 5
   \<and> product_valid (demo_listing None (Some 0))
   \<and> \<not> isl (fst zero_threshold_run)
   \<and> snd (projr (fst zero_threshold_run)) = None
   \<and> status (fst (projr (fst zero_threshold_run))) = Pending
   \<and> map status (offers (snd zero_threshold_run)) = [Pending]
   \<and> map p_status (listings (snd zero_threshold_run)) = [Available]
   \<and> map soldTo (listings (snd zero_threshold_run)) = [None]
   \<and> map soldPrice (listings (snd zero_threshold_run)) = [None]"
  by (simp add: zero_threshold_run_def run_defs)

text \<open>
  Claim C1, amended: whenever an offer is created (the handler answers 201) on an
  available listing that takes offers and whose \<open>autoAcceptPrice\<close> is set to a value other
  than zero, with \<open>offerAmount \<ge> autoAcceptPrice\<close>, the created offer is stored with status
  \<open>accepted\<close>, and the listing is stored as sold to the buyer, with
  \<open>soldPrice = offerAmount\<close>.
\<close>

theorem auto_accept_on_creation:
  assumes "product_findById listingId s = Some l"
      and "p_status l = Available" and "acceptsOffers l"
      and "p_autoAcceptPrice l = Some a" and "a \<noteq> 0" and "a \<le> amt"
      and "post_offer e buyerId listingId amt msg s = (Inr (d, ar), s')"
  shows "status d = Accepted \<and> ar = Some Accept
         \<and> offer_findById (offer_id d) s' = Some d
         \<and> (\<exists>l'. product_findById listingId s' = Some l' \<and> p_status l' = Sold
                  \<and> soldTo l' = Some buyerId \<and> soldPrice l' = Some amt)"
proof -
  from assms(7) obtain l0 s1 where l0: "product_findById listingId s = Some l0"
    and lid: "product_id l0 = listingId"
    and cr: "create_respond e buyerId l0 (new_offer (now e) buyerId l0 amt msg (offers s1)) s1
             = (Inr (d, ar), s')"
    by (rule post_offer_Inr)
  from l0 assms(1) have [simp]: "l0 = l" by simp
  have "checkAutoResponse (new_offer (now e) buyerId l amt msg (offers s1)) = Some Accept"
    using assms(4-6) by (simp add: checkAutoResponse_def new_offer_def)
  from create_respond_accept [OF this cr [simplified]] lid
  show ?thesis by (simp add: new_offer_def)
qed

theorem auto_accept_on_creation_witness:
  "\<exists>d s'. post_offer (at_time 1000) 20 1 95 None (shop (demo_listing None (Some 90)))
            = (Inr (d, Some Accept), s')
          \<and> status d = Accepted \<and> offer_findById (offer_id d) s' = Some d
          \<and> (\<exists>l'. product_findById 1 s' = Some l' \<and> p_status l' = Sold
                   \<and> soldTo l' = Some 20 \<and> soldPrice l' = Some 95)"
proof -
  let ?s = "shop (demo_listing None (Some 90))"
  have l: "product_findById 1 ?s = Some (demo_listing None (Some 90))"
    by (simp add: run_defs)
  obtain d ar s' where run: "post_offer (at_time 1000) 20 1 95 None ?s = (Inr (d, ar), s')"
    by (simp add: run_defs)
  from auto_accept_on_creation [OF l _ _ _ _ _ run, of 90] run
  show ?thesis by (simp add: demo_listing_def)
qed

text \<open>
  Claim C2, as stated: whenever \<open>minimumOffer\<close> is set and \<open>offerAmount < minimumOffer\<close>,
  the created offer is \<open>declined\<close> and the listing is unchanged, also when
  \<open>autoAcceptPrice\<close> is set and \<open>offerAmount \<ge> autoAcceptPrice\<close>. The handler tests the
  auto-accept threshold first: an offer of 60 on a listing with \<open>minimumOffer = 80\<close> and
  \<open>autoAcceptPrice = 50\<close> is accepted and the listing is sold at 60.
\<close>

theorem below_minimum_auto_accepted:
  "p_minimumOffer (demo_listing (Some 80) (Some 50)) = Some 80 \<and> (60::rat) < 80
   \<and> \<not> isl (fst below_minimum_run)
   \<and> status (fst (projr (fst below_minimum_run))) = Accepted
   \<and> map status (offers (snd below_minimum_run)) = [Accepted]
   \<and> map p_status (listings (snd below_minimum_run)) = [Sold]
   \<and> map soldPrice (listings (snd below_minimum_run)) = [Some 60]"
  by (simp add: below_minimum_run_def run_defs)

text \<open>
  Claim C2, amended: whenever an offer is created with \<open>minimumOffer\<close> set and
  \<open>offerAmount < minimumOffer\<close>, and the auto-accept threshold does not apply
  (\<open>autoAcceptPrice\<close> unset or zero, or \<open>offerAmount < autoAcceptPrice\<close>), the created
  offer is stored with status \<open>declined\<close> and the listings are unchanged.
\<close>

theorem below_minimum_declined:
  assumes "product_findById listingId s = Some l"
      and "p_minimumOffer l = Some m" and "amt < m"
      and "case p_autoAcceptPrice l of None \<Rightarrow> True | Some a \<Rightarrow> a = 0 \<or> amt < a"
      and "post_offer e buyerId listingId amt msg s = (Inr (d, ar), s')"
  shows "status d = Declined \<and> ar = Some Decline
         \<and> offer_findById (offer_id d) s' = Some d
         \<and> listings s' = listings s"
proof -
  from assms(5) obtain l0 s1 where l0: "product_findById listingId s = Some l0"
    and ls: "listings s1 = listings s"
    and cr: "create_respond e buyerId l0 (new_offer (now e) buyerId l0 amt msg (offers s1)) s1
             = (Inr (d, ar), s')"
    by (rule post_offer_Inr)
  from l0 assms(1) have [simp]: "l0 = l" by simp
  from create_respond_valid [OF cr] have "1 \<le> amt" by (simp add: new_offer_def)
  with assms(3) have "m \<noteq> 0" by auto
  then have "checkAutoResponse (new_offer (now e) buyerId l amt msg (offers s1)) = Some Decline"
    using assms(2-4) by (auto simp: checkAutoResponse_def new_offer_def split: option.splits)
  from create_respond_decline [OF this cr [simplified]] ls
  show ?thesis by simp
qed

theorem below_minimum_declined_witness:
  "\<exists>d s'. post_offer (at_time 1000) 20 1 40 None (shop (demo_listing (Some 50) None))
            = (Inr (d, Some Decline), s')
          \<and> status d = Declined \<and> offer_findById (offer_id d) s' = Some d
          \<and> listings s' = [demo_listing (Some 50) None]"
proof -
  let ?s = "shop (demo_listing (Some 50) None)"
  have l: "product_findById 1 ?s = Some (demo_listing (Some 50) None)"
    by (simp add: run_defs)
  obtain d ar s' where run: "post_offer (at_time 1000) 20 1 40 None ?s = (Inr (d, ar), s')"
    by (simp add: run_defs)
  from below_minimum_declined [OF l _ _ _ run, of 50] run
  show ?thesis by (simp add: demo_listing_def shop_def)
qed

section \<open>Creation: the history of a new offer\<close>

text \<open>
  Claim C6 says that a creation without auto-response stores a \<open>pending\<close> offer whose
  history holds exactly one entry, with action \<open>created\<close>. The offer is stored as \<open>pending\<close>,
  but the save hook appends an entry only when the status was modified, and the status of
  such an offer is the schema default: the stored history is empty. The hook copies the
  status into the action, so no save can write the action \<open>created\<close> that the schema lists.
\<close>

theorem pending_creation_has_empty_history:
  "\<not> isl (fst plain_creation_run)
   \<and> snd (projr (fst plain_creation_run)) = None
   \<and> map status (offers (snd plain_creation_run)) = [Pending]
   \<and> map history (offers (snd plain_creation_run)) = [[]]
   \<and> history (fst (projr (fst plain_creation_run))) = []"
  by (simp add: plain_creation_run_def run_defs)

section \<open>One pending offer per buyer and listing\<close>

text \<open>
  Claim C4, as stated: per (listing, buyer) at most one offer is \<open>pending\<close> or \<open>countered\<close>,
  and a new offer is refused while the earlier one is still active and younger than 24
  hours. The handler looks for an earlier offer with status \<open>pending\<close> only: a buyer whose
  offer was countered an hour ago creates a second offer, and both are active.
\<close>

theorem countered_offer_does_not_block:
  "\<not> isl (fst countered_prior_run)
   \<and> map status (offers (snd countered_prior_run)) = [Countered, Pending]
   \<and> map listing (offers (snd countered_prior_run)) = [1, 1]
   \<and> map buyer (offers (snd countered_prior_run)) = [20, 20]"
  by (simp add: countered_prior_run_def countered_store) (simp add: run_defs)

text \<open>
  Claim C4, amended: per (listing, buyer) at most one offer is \<open>pending\<close> at a time, which
  every handler and the expiry job preserve; an offer that stands \<open>countered\<close> is not
  counted and blocks nothing. Creating a new offer while the buyer's earlier offer on the
  listing is still \<open>pending\<close> is refused with a wait-time message when less than 24 hours
  have passed since that offer was created; otherwise the earlier offer is stored as
  \<open>withdrawn\<close> before the new one is created.
\<close>

theorem one_pending_offer_per_buyer:
  "(one_pending s \<longrightarrow>
        one_pending (snd (post_offer e b lid amt msg s))
      \<and> one_pending (snd (put_accept e u i s))
      \<and> one_pending (snd (put_decline e u i s))
      \<and> one_pending (snd (put_counter e u i c cmsg s))
      \<and> one_pending (snd (put_withdraw e u i s))
      \<and> one_pending (snd (put_respond_counter e u i a s))
      \<and> one_pending (snd (get_received e u st fl s))
      \<and> one_pending (expired_offers_job e s))
   \<and> (\<forall>l ex. product_findById lid s = Some l \<and> p_status l = Available \<and> acceptsOffers l
          \<and> p_seller l \<noteq> b
          \<and> find (\<lambda>x. listing x = lid \<and> buyer x = b \<and> status x = Pending) (offers s) = Some ex
        \<longrightarrow>
          (if now e - createdAt ex < 24 * 60 * 60 * 1000
           then post_offer e b lid amt msg s
                  = (Inl (WaitHours
                           \<lceil>24 - (of_int (now e - createdAt ex) :: rat) / (1000 * 60 * 60)\<rceil>),
                     s)
           else (\<forall>d ar s'. post_offer e b lid amt msg s = (Inr (d, ar), s') \<longrightarrow>
                   (\<exists>ex'. offer_findById (offer_id ex) s' = Some ex' \<and> status ex' = Withdrawn)
                   \<and> offer_id d \<noteq> offer_id ex
                   \<and> offer_findById (offer_id d) s' = Some d)))"
proof (intro conjI allI impI)
  fix l ex
  assume h: "product_findById lid s = Some l \<and> p_status l = Available \<and> acceptsOffers l
          \<and> p_seller l \<noteq> b
          \<and> find (\<lambda>x. listing x = lid \<and> buyer x = b \<and> status x = Pending) (offers s) = Some ex"
  show "if now e - createdAt ex < 24 * 60 * 60 * 1000
           then post_offer e b lid amt msg s
                  = (Inl (WaitHours
                           \<lceil>24 - (of_int (now e - createdAt ex) :: rat) / (1000 * 60 * 60)\<rceil>),
                     s)
           else (\<forall>d ar s'. post_offer e b lid amt msg s = (Inr (d, ar), s') \<longrightarrow>
                   (\<exists>ex'. offer_findById (offer_id ex) s' = Some ex' \<and> status ex' = Withdrawn)
                   \<and> offer_id d \<noteq> offer_id ex
                   \<and> offer_findById (offer_id d) s' = Some d)"
  proof (cases "now e - createdAt ex < 24 * 60 * 60 * 1000")
    case True
    then have "(of_int (now e - createdAt ex) :: rat) / (1000 * 60 * 60) < 24"
      using hours_test [of "now e - createdAt ex"] by blast
    with h True show ?thesis by (simp add: post_offer_def Let_def)
  next
    case False
    then have late: "\<not> (of_int (now e - createdAt ex) :: rat) / (1000 * 60 * 60) < 24"
      using hours_test [of "now e - createdAt ex"] by blast
    have "(\<exists>ex'. offer_findById (offer_id ex) s' = Some ex' \<and> status ex' = Withdrawn)
                   \<and> offer_id d \<noteq> offer_id ex
                   \<and> offer_findById (offer_id d) s' = Some d"
      if run: "post_offer e b lid amt msg s = (Inr (d, ar), s')" for d ar s'
    proof -
      from run h late obtain dx s1 where
        sv: "offer_save (now e) ex (ex\<lparr>status := Withdrawn\<rparr>) s = Some (dx, s1)"
        and cr: "create_respond e b l (new_offer (now e) b l amt msg (offers s1)) s1 = (Inr (d, ar), s')"
        by (auto simp: post_offer_def Let_def split: option.splits)
      from sv have dx: "status dx = Withdrawn" "offer_id dx = offer_id ex"
        and s1: "offers s1 = put_offer dx (offers s)"
        by (auto simp: offer_save_def Let_def split: if_splits)
      from create_respond_Inr_offers [OF cr]
      have os: "offers s' = put_offer d (offers s1)"
        and idd: "offer_id d = fresh_id (offers s1)"
        by (simp_all add: new_offer_def)
      have f1: "find (\<lambda>x. offer_id x = offer_id ex) (offers s1) = Some dx"
        using find_put_offer [of dx "offers s"] dx(2) s1 by simp
      then have "offer_id ex \<in> offer_id ` set (offers s1)" by (rule find_mem_ids)
      with fresh_id_notin [of "offers s1"] idd have ne: "offer_id d \<noteq> offer_id ex" by auto
      then have "offer_findById (offer_id ex) s' = Some dx"
        using f1 by (simp add: offer_findById_def os find_put_offer_other)
      moreover have "offer_findById (offer_id d) s' = Some d"
        by (simp add: offer_findById_def os find_put_offer)
      ultimately show ?thesis using dx(1) ne by simp
    qed
    with False show ?thesis by simp
  qed
qed (simp_all add: post_offer_one_pending put_accept_one_pending put_decline_one_pending
      put_counter_one_pending put_withdraw_one_pending put_respond_counter_one_pending
      get_received_one_pending expired_offers_job_one_pending)

theorem one_pending_offer_per_buyer_witness:
  "one_pending haggle
   \<and> one_pending (snd (post_offer (at_time 86400000) 20 1 70 None haggle))
   \<and> post_offer (at_time 3600000) 20 1 70 None haggle = (Inl (WaitHours 23), haggle)
   \<and> (\<exists>d ar s'. post_offer (at_time 86400000) 20 1 70 None haggle = (Inr (d, ar), s')
          \<and> (\<exists>ex'. offer_findById 1 s' = Some ex' \<and> status ex' = Withdrawn)
          \<and> offer_findById (offer_id d) s' = Some d \<and> offer_id d \<noteq> 1)"
proof -
  have inv: "one_pending haggle"
    by (simp add: one_pending_def pending_keys_def haggle_store run_defs)
  have pre: "product_findById 1 haggle = Some (demo_listing None None)
       \<and> p_status (demo_listing None None) = Available \<and> acceptsOffers (demo_listing None None)
       \<and> p_seller (demo_listing None None) \<noteq> 20
       \<and> find (\<lambda>x. listing x = 1 \<and> buyer x = 20 \<and> status x = Pending) (offers haggle)
           = Some (demo_offer 1 20 60 Pending)"
    by (simp add: haggle_store run_defs)
  note early = one_pending_offer_per_buyer [of haggle "at_time 3600000" 20 1 70 None,
      THEN conjunct2, rule_format, OF pre]
  note late = one_pending_offer_per_buyer [of haggle "at_time 86400000" 20 1 70 None,
      THEN conjunct2, rule_format, OF pre]
  note kept = one_pending_offer_per_buyer [of haggle "at_time 86400000" 20 1 70 None,
      THEN conjunct1, rule_format, OF inv, THEN conjunct1]
  obtain d ar s' where run: "post_offer (at_time 86400000) 20 1 70 None haggle = (Inr (d, ar), s')"
    by (simp add: haggle_store run_defs)
  have a: "post_offer (at_time 3600000) 20 1 70 None haggle = (Inl (WaitHours 23), haggle)"
    using early by (simp add: demo_offer_def at_time_def)
  have b: "(\<exists>ex'. offer_findById 1 s' = Some ex' \<and> status ex' = Withdrawn)
          \<and> offer_id d \<noteq> 1 \<and> offer_findById (offer_id d) s' = Some d"
    using late run by (simp add: demo_offer_def at_time_def)
  from inv kept a b run show ?thesis by simp
qed

section \<open>Seller accepts\<close>

text \<open>
  Claim C3. When the seller accepts a pending, unexpired offer on listing \<open>L\<close> (the handler
  answers 200), every other offer on \<open>L\<close> that was pending is stored as \<open>declined\<close>, no
  offer on \<open>L\<close> stays pending, and \<open>L\<close> is stored as sold, to the buyer of the accepted
  offer and at its \<open>offerAmount\<close>.
\<close>

theorem seller_accept_declines_siblings:
  assumes "offer_findById offerId s = Some d"
      and "status d = Pending" and "\<not> isExpired (now e) d"
      and "put_accept e userId offerId s = (Inr d1, s')"
  shows "(\<forall>x\<in>set (offers s). listing x = listing d \<and> status x = Pending \<and> offer_id x \<noteq> offerId
            \<longrightarrow> x\<lparr>status := Declined, declinedAt := Some (now e)\<rparr> \<in> set (offers s'))
         \<and> (\<forall>y\<in>set (offers s'). listing y = listing d \<longrightarrow> status y \<noteq> Pending)
         \<and> status d1 = Accepted \<and> offer_findById offerId s' = Some d1
         \<and> (\<exists>l'. product_findById (listing d) s' = Some l' \<and> p_status l' = Sold
                  \<and> soldTo l' = Some (buyer d) \<and> soldPrice l' = Some (offerAmount d))"
proof -
  from assms(4) obtain d0 l where d0: "offer_findById offerId s = Some d0"
    and d1: "d1 = history_hook (now e) d0 (d0\<lparr>status := Accepted, acceptedAt := Some (now e)\<rparr>)"
    and l: "product_findById (listing d0) s = Some l"
    and os: "offers s' = map (\<lambda>x. if listing x = listing d0 \<and> status x = Pending \<and> offer_id x \<noteq> offerId
                          then x\<lparr>status := Declined, declinedAt := Some (now e)\<rparr> else x)
                  (map (\<lambda>x. if offer_id x = offerId then d1 else x) (offers s))"
    and ls: "listings s' = put_product (l\<lparr>p_status := Sold, soldTo := Some (buyer d0),
                                 soldPrice := Some (offerAmount d0),
                                 soldAt := Some (now e)\<rparr>) (listings s)"
    by (rule put_accept_Inr)
  from d0 assms(1) have [simp]: "d0 = d" by simp
  from assms(1) have id: "offer_id d = offerId" and mem: "offerId \<in> offer_id ` set (offers s)"
    by (auto simp: offer_findById_def dest: find_id_Some find_mem_ids)
  from l have lid: "product_id l = listing d"
    by (auto simp: product_findById_def dest: find_id_Some)
  have d1f: "status d1 = Accepted" "offer_id d1 = offerId" "listing d1 = listing d"
    using id by (simp_all add: d1 history_hook_def)
  have a: "\<forall>x\<in>set (offers s). listing x = listing d \<and> status x = Pending \<and> offer_id x \<noteq> offerId
            \<longrightarrow> x\<lparr>status := Declined, declinedAt := Some (now e)\<rparr> \<in> set (offers s')"
    unfolding os by (force simp: image_iff)
  have b: "\<forall>y\<in>set (offers s'). listing y = listing d \<longrightarrow> status y \<noteq> Pending"
    unfolding os using d1f by (auto split: if_splits)
  have c: "offer_findById offerId s' = Some d1"
    unfolding offer_findById_def os
    by (subst find_map_fixed) (simp_all add: find_map_replace mem d1f)
  have "product_findById (listing d) s'
        = Some (l\<lparr>p_status := Sold, soldTo := Some (buyer d),
                  soldPrice := Some (offerAmount d), soldAt := Some (now e)\<rparr>)"
    using find_put_product [of "l\<lparr>p_status := Sold, soldTo := Some (buyer d),
                  soldPrice := Some (offerAmount d), soldAt := Some (now e)\<rparr>" "listings s"] lid
    by (simp add: product_findById_def ls)
  with a b c d1f show ?thesis by simp
qed

theorem seller_accept_declines_siblings_witness:
  "\<exists>d1 s'. put_accept (at_time 1000) 10 1 two_bidders = (Inr d1, s')
     \<and> (demo_offer 2 21 70 Pending)\<lparr>status := Declined, declinedAt := Some 1000\<rparr> \<in> set (offers s')
     \<and> status d1 = Accepted \<and> offer_findById 1 s' = Some d1
     \<and> (\<exists>l'. product_findById 1 s' = Some l' \<and> p_status l' = Sold
              \<and> soldTo l' = Some 20 \<and> soldPrice l' = Some 60)"
proof -
  have d: "offer_findById 1 two_bidders = Some (demo_offer 1 20 60 Pending)"
    by (simp add: two_bidders_store run_defs)
  have p: "status (demo_offer 1 20 60 Pending) = Pending"
    and x: "\<not> isExpired (now (at_time 1000)) (demo_offer 1 20 60 Pending)"
    by (simp_all add: run_defs put_defs)
  obtain d1 s' where run: "put_accept (at_time 1000) 10 1 two_bidders = (Inr d1, s')"
    by (simp add: two_bidders_store run_defs put_defs)
  have m: "demo_offer 2 21 70 Pending \<in> set (offers two_bidders)"
    by (simp add: two_bidders_store run_defs)
  note r = seller_accept_declines_siblings [OF d p x run]
  from r [THEN conjunct1, THEN bspec, OF m]
  have "(demo_offer 2 21 70 Pending)\<lparr>status := Declined, declinedAt := Some 1000\<rparr>
          \<in> set (offers s')"
    by (simp add: demo_offer_def at_time_def)
  with r run show ?thesis by (simp add: demo_offer_def)
qed

text \<open>
  Claim C5 says that every status transition, the decline of the sibling offers on a seller
  accept included, appends exactly one history entry. The siblings are declined by a bulk
  update, which runs no save hook: the second offer goes from \<open>pending\<close> to \<open>declined\<close>
  and its history stays empty, while the accepted offer gets its entry.
\<close>

theorem sibling_decline_skips_history:
  "\<not> isl (fst sibling_run)
   \<and> map status (offers two_bidders) = [Pending, Pending]
   \<and> map status (offers (snd sibling_run)) = [Accepted, Declined]
   \<and> map length (map history (offers two_bidders)) = [0, 0]
   \<and> map length (map history (offers (snd sibling_run))) = [1, 0]"
  by (simp add: sibling_run_def two_bidders_store run_defs put_defs)

text \<open>
  Claim C10. When the seller accepts an offer that is \<open>pending\<close> and whose \<open>expiresAt\<close> is
  in the past, the handler answers 400 \<open>Offer has expired\<close>, and the store is changed: the
  offer is stored with status \<open>expired\<close> and one more history entry. The stored offer is
  assumed to pass the validators of its own schema, as every offer written by a save does.
\<close>

theorem expired_accept_is_persisted:
  assumes "offer_findById offerId s = Some d"
      and "seller d = userId" and "status d = Pending" and "expiresAt d < now e"
      and "offer_valid d"
  shows "\<exists>d' s'. put_accept e userId offerId s = (Inl OfferExpired, s')
           \<and> http_status OfferExpired = 400
           \<and> offer_findById offerId s' = Some d'
           \<and> d' = d\<lparr>status := Expired,
                     history := history d @
                       [\<lparr>action = ''expired'', h_amount = Some (offerAmount d),
                         h_message = message d, h_timestamp = now e, h_by = buyer d\<rparr>]\<rparr>
           \<and> s' = s\<lparr>offers := put_offer d' (offers s)\<rparr>"
proof -
  from assms(1) have id: "offer_id d = offerId"
    by (auto simp: offer_findById_def dest: find_id_Some)
  let ?d' = "d\<lparr>status := Expired,
                     history := history d @
                       [\<lparr>action = ''expired'', h_amount = Some (offerAmount d),
                         h_message = message d, h_timestamp = now e, h_by = buyer d\<rparr>]\<rparr>"
  have h: "history_hook (now e) d (d\<lparr>status := Expired\<rparr>) = ?d'"
    using assms(3) by (simp add: history_hook_def)
  from assms(5) have "offer_save (now e) d (d\<lparr>status := Expired\<rparr>) s
      = Some (?d', s\<lparr>offers := put_offer ?d' (offers s)\<rparr>)"
    by (simp add: offer_save_def offer_valid_def h Let_def)
  with assms(1-4) have "put_accept e userId offerId s
      = (Inl OfferExpired, s\<lparr>offers := put_offer ?d' (offers s)\<rparr>)"
    by (simp add: put_accept_def isExpired_def)
  moreover have "offer_findById offerId (s\<lparr>offers := put_offer ?d' (offers s)\<rparr>) = Some ?d'"
    using find_put_offer [of ?d' "offers s"] id by (simp add: offer_findById_def)
  ultimately show ?thesis by simp
qed

theorem expired_accept_is_persisted_witness:
  "\<exists>d' s'. put_accept (at_time 172800001) 10 1 two_bidders = (Inl OfferExpired, s')
     \<and> offer_findById 1 s' = Some d' \<and> status d' = Expired \<and> map action (history d') = [''expired'']"
proof -
  have d: "offer_findById 1 two_bidders = Some (demo_offer 1 20 60 Pending)"
    by (simp add: two_bidders_store run_defs)
  have g: "seller (demo_offer 1 20 60 Pending) = 10" "status (demo_offer 1 20 60 Pending) = Pending"
    "expiresAt (demo_offer 1 20 60 Pending) < now (at_time 172800001)"
    "offer_valid (demo_offer 1 20 60 Pending)"
    by (simp_all add: run_defs)
  from expired_accept_is_persisted [OF d g] show ?thesis
    by (auto simp: demo_offer_def)
qed

section \<open>Counter-offers\<close>

text \<open>
  Claim C7. A seller's counter on a pending offer with \<open>counterAmount \<le> offerAmount\<close> or
  \<open>counterAmount > originalPrice\<close> is answered with a 400 validation error, and the store is
  returned as it was: the offer keeps its status, counter-offer and expiry.
\<close>

theorem counter_out_of_range_rejected:
  assumes "offer_findById offerId s = Some d"
      and "seller d = userId" and "status d = Pending"
      and "counterAmount \<le> offerAmount d \<or> originalPrice d < counterAmount"
  shows "\<exists>err. put_counter e userId offerId counterAmount counterMessage s = (Inl err, s)
           \<and> (err = CounterTooLow \<or> err = CounterTooHigh) \<and> http_status err = 400"
  using assms by (auto simp: put_counter_def)

theorem counter_out_of_range_rejected_witness:
  "(\<exists>err. put_counter (at_time 1000) 10 1 60 None two_bidders = (Inl err, two_bidders)
          \<and> http_status err = 400)
   \<and> (\<exists>err. put_counter (at_time 1000) 10 1 101 None two_bidders = (Inl err, two_bidders)
          \<and> http_status err = 400)"
proof -
  have d: "offer_findById 1 two_bidders = Some (demo_offer 1 20 60 Pending)"
    by (simp add: two_bidders_store run_defs)
  have g: "seller (demo_offer 1 20 60 Pending) = 10" "status (demo_offer 1 20 60 Pending) = Pending"
    by (simp_all add: run_defs)
  have lo: "(60::rat) \<le> offerAmount (demo_offer 1 20 60 Pending)
            \<or> originalPrice (demo_offer 1 20 60 Pending) < 60"
   and hi: "(101::rat) \<le> offerAmount (demo_offer 1 20 60 Pending)
            \<or> originalPrice (demo_offer 1 20 60 Pending) < 101"
    by (simp_all add: run_defs)
  from counter_out_of_range_rejected [OF d g lo, of "at_time 1000" None]
       counter_out_of_range_rejected [OF d g hi, of "at_time 1000" None]
  show ?thesis by blast
qed

text \<open>What a valid counter and the acceptance of a counter do.\<close>

lemma put_counter_ok:
  assumes "offer_findById i s = Some d"
      and "status d = Pending" and "offer_valid d"
      and "offerAmount d < c" and "c \<le> originalPrice d"
      and "product_findById (listing d) s = Some l"
      and "\<not> notify_fails e"
  shows "\<exists>d1 s1. put_counter e (seller d) i c m s = (Inr d1, s1)
           \<and> d1 = d\<lparr>status := Countered,
                     counterOffer := Some \<lparr>c_amount = c, c_message = m, c_timestamp = now e\<rparr>,
                     expiresAt := now e + 48 * 60 * 60 * 1000,
                     history := history d @
                       [\<lparr>action = ''countered'', h_amount = Some c, h_message = m,
                         h_timestamp = now e, h_by = seller d\<rparr>]\<rparr>
           \<and> offer_findById i s1 = Some d1 \<and> listings s1 = listings s"
proof -
  from assms(1) have id: "offer_id d = i"
    by (auto simp: offer_findById_def dest: find_id_Some)
  define d1 where "d1 = history_hook (now e) d
      (d\<lparr>status := Countered,
         counterOffer := Some \<lparr>c_amount = c, c_message = m, c_timestamp = now e\<rparr>,
         expiresAt := now e + 48 * 60 * 60 * 1000\<rparr>)"
  have sv: "offer_save (now e) d
      (d\<lparr>status := Countered,
         counterOffer := Some \<lparr>c_amount = c, c_message = m, c_timestamp = now e\<rparr>,
         expiresAt := now e + 48 * 60 * 60 * 1000\<rparr>) s
      = Some (d1, s\<lparr>offers := put_offer d1 (offers s)\<rparr>)"
    using assms(3) by (simp add: offer_save_def d1_def Let_def)
  have id1: "offer_id d1 = i" "seller d1 = seller d" "buyer d1 = buyer d"
    using id by (simp_all add: d1_def)
  have run: "put_counter e (seller d) i c m s
      = (Inr d1, s\<lparr>offers := put_offer d1 (offers s),
                     messages := messages s @
                       [offer_note (seller d) (buyer d) (product_id l) i c ''countered'']\<rparr>)"
    using assms(1,2,4-7) id1 by (simp add: put_counter_def sv [simplified] notify_def)
  have eq: "d1 = d\<lparr>status := Countered,
                     counterOffer := Some \<lparr>c_amount = c, c_message = m, c_timestamp = now e\<rparr>,
                     expiresAt := now e + 48 * 60 * 60 * 1000,
                     history := history d @
                       [\<lparr>action = ''countered'', h_amount = Some c, h_message = m,
                         h_timestamp = now e, h_by = seller d\<rparr>]\<rparr>"
    using assms(2) by (simp add: d1_def history_hook_def)
  have "offer_findById i (s\<lparr>offers := put_offer d1 (offers s),
                     messages := messages s @
                       [offer_note (seller d) (buyer d) (product_id l) i c ''countered'']\<rparr>) = Some d1"
    using find_put_offer [of d1 "offers s"] id1 by (simp add: offer_findById_def)
  with run eq show ?thesis by simp
qed

lemma put_respond_accept_ok:
  assumes "offer_findById i s = Some d"
      and "status d = Countered" and "counterOffer d = Some co"
      and "offer_valid (d\<lparr>offerAmount := c_amount co\<rparr>)"
      and "product_findById (listing d) s = Some l" and "product_valid l"
      and "\<not> notify_fails e"
  shows "\<exists>d2 s2. put_respond_counter e (buyer d) i True s = (Inr d2, s2)
           \<and> status d2 = Accepted \<and> offerAmount d2 = c_amount co
           \<and> offer_findById i s2 = Some d2
           \<and> product_findById (listing d) s2
               = Some (l\<lparr>p_status := Sold, soldTo := Some (buyer d),
                         soldPrice := Some (c_amount co), soldAt := Some (now e)\<rparr>)"
proof -
  from assms(1) have id: "offer_id d = i"
    by (auto simp: offer_findById_def dest: find_id_Some)
  from assms(5) have lid: "product_id l = listing d"
    by (auto simp: product_findById_def dest: find_id_Some)
  define d2 where "d2 = history_hook (now e) d
      (d\<lparr>status := Accepted, acceptedAt := Some (now e), offerAmount := c_amount co\<rparr>)"
  define l' where "l' = l\<lparr>p_status := Sold, soldTo := Some (buyer d),
                         soldPrice := Some (c_amount co), soldAt := Some (now e)\<rparr>"
  have v: "offer_valid (d\<lparr>status := Accepted, acceptedAt := Some (now e),
                          offerAmount := c_amount co\<rparr>)"
    using assms(4) by (simp add: offer_valid_def)
  have sv: "offer_save (now e) d
      (d\<lparr>status := Accepted, acceptedAt := Some (now e), offerAmount := c_amount co\<rparr>) s
      = Some (d2, s\<lparr>offers := put_offer d2 (offers s)\<rparr>)"
    using v by (simp add: offer_save_def d2_def Let_def)
  have d2f: "offer_id d2 = i" "seller d2 = seller d" "buyer d2 = buyer d"
    "status d2 = Accepted" "offerAmount d2 = c_amount co"
    using id by (simp_all add: d2_def)
  have ps: "product_save l' (s\<lparr>offers := put_offer d2 (offers s)\<rparr>)
      = Some (s\<lparr>offers := put_offer d2 (offers s), listings := put_product l' (listings s)\<rparr>)"
    using assms(6) by (simp add: product_save_def l'_def)
  have run: "put_respond_counter e (buyer d) i True s
      = (Inr d2, s\<lparr>offers := put_offer d2 (offers s), listings := put_product l' (listings s),
                     messages := messages s @
                       [offer_note (buyer d) (seller d) (product_id l) i (c_amount co) ''accepted'']\<rparr>)"
    using assms(1-3,5,7) d2f ps by (simp add: put_respond_counter_def sv notify_def l'_def)
  have "offer_findById i (s\<lparr>offers := put_offer d2 (offers s), listings := put_product l' (listings s),
                     messages := messages s @
                       [offer_note (buyer d) (seller d) (product_id l) i (c_amount co) ''accepted'']\<rparr>)
        = Some d2"
    using find_put_offer [of d2 "offers s"] d2f by (simp add: offer_findById_def)
  moreover have "product_findById (listing d) (s\<lparr>offers := put_offer d2 (offers s),
                     listings := put_product l' (listings s),
                     messages := messages s @
                       [offer_note (buyer d) (seller d) (product_id l) i (c_amount co) ''accepted'']\<rparr>)
        = Some l'"
    using find_put_product [of l' "listings s"] lid by (simp add: product_findById_def l'_def)
  ultimately show ?thesis using run d2f by (simp add: l'_def)
qed

text \<open>
  Claim C8. If the seller counters a pending offer with an amount in range and the buyer
  then accepts the counter (the sink working, the stored documents valid), the counter
  step stores the offer as \<open>countered\<close> with \<open>expiresAt\<close> 48 hours after the counter time,
  and the acceptance stores it as \<open>accepted\<close> with \<open>offerAmount\<close> equal to the counter
  amount, and the listing as sold to the buyer at the counter amount.
\<close>

theorem counter_then_accept:
  assumes "offer_findById offerId s = Some d"
      and "status d = Pending" and "offer_valid d"
      and "offerAmount d < c" and "c \<le> originalPrice d"
      and "product_findById (listing d) s = Some l" and "product_valid l"
      and "\<not> notify_fails e1" and "\<not> notify_fails e2"
  shows "\<exists>d1 s1 d2 s2.
           put_counter e1 (seller d) offerId c cmsg s = (Inr d1, s1)
         \<and> status d1 = Countered \<and> expiresAt d1 = now e1 + 48 * 60 * 60 * 1000
         \<and> map_option c_amount (counterOffer d1) = Some c
         \<and> offer_findById offerId s1 = Some d1
         \<and> put_respond_counter e2 (buyer d) offerId True s1 = (Inr d2, s2)
         \<and> status d2 = Accepted \<and> offerAmount d2 = c
         \<and> offer_findById offerId s2 = Some d2
         \<and> (\<exists>l'. product_findById (listing d) s2 = Some l' \<and> p_status l' = Sold
                  \<and> soldTo l' = Some (buyer d) \<and> soldPrice l' = Some c)"
proof -
  from put_counter_ok [OF assms(1-6,8), of cmsg]
  obtain d1 s1 where run1: "put_counter e1 (seller d) offerId c cmsg s = (Inr d1, s1)"
    and d1: "d1 = d\<lparr>status := Countered,
                     counterOffer := Some \<lparr>c_amount = c, c_message = cmsg, c_timestamp = now e1\<rparr>,
                     expiresAt := now e1 + 48 * 60 * 60 * 1000,
                     history := history d @
                       [\<lparr>action = ''countered'', h_amount = Some c, h_message = cmsg,
                         h_timestamp = now e1, h_by = seller d\<rparr>]\<rparr>"
    and f1: "offer_findById offerId s1 = Some d1" and ls: "listings s1 = listings s"
    by blast
  have d1f: "status d1 = Countered" "expiresAt d1 = now e1 + 48 * 60 * 60 * 1000"
    "counterOffer d1 = Some \<lparr>c_amount = c, c_message = cmsg, c_timestamp = now e1\<rparr>"
    "listing d1 = listing d" "buyer d1 = buyer d"
    by (simp_all add: d1)
  have v: "offer_valid (d1\<lparr>offerAmount := c\<rparr>)"
    using assms(3,4) by (simp add: d1 offer_valid_def history_actions_def)
  have l1: "product_findById (listing d1) s1 = Some l"
    using assms(6) ls by (simp add: product_findById_def d1f)
  from put_respond_accept_ok [OF f1 d1f(1) d1f(3) _ l1 assms(7,9)] v
  obtain d2 s2 where "put_respond_counter e2 (buyer d1) offerId True s1 = (Inr d2, s2)"
    "status d2 = Accepted" "offerAmount d2 = c" "offer_findById offerId s2 = Some d2"
    "product_findById (listing d1) s2
       = Some (l\<lparr>p_status := Sold, soldTo := Some (buyer d1),
                 soldPrice := Some c, soldAt := Some (now e2)\<rparr>)"
    by auto
  with run1 f1 d1f show ?thesis by simp
qed

theorem counter_then_accept_witness:
  "\<exists>d1 s1 d2 s2.
       put_counter (at_time 1000) 10 1 80 None haggle = (Inr d1, s1)
     \<and> status d1 = Countered \<and> expiresAt d1 = 172801000
     \<and> put_respond_counter (at_time 2000) 20 1 True s1 = (Inr d2, s2)
     \<and> status d2 = Accepted \<and> offerAmount d2 = 80
     \<and> (\<exists>l'. product_findById 1 s2 = Some l' \<and> p_status l' = Sold
              \<and> soldTo l' = Some 20 \<and> soldPrice l' = Some 80)"
proof -
  have d: "offer_findById 1 haggle = Some (demo_offer 1 20 60 Pending)"
    by (simp add: haggle_store run_defs)
  have g: "status (demo_offer 1 20 60 Pending) = Pending" "offer_valid (demo_offer 1 20 60 Pending)"
    "offerAmount (demo_offer 1 20 60 Pending) < 80" "80 \<le> originalPrice (demo_offer 1 20 60 Pending)"
    by (simp_all add: run_defs)
  have l: "product_findById (listing (demo_offer 1 20 60 Pending)) haggle = Some (demo_listing None None)"
    "product_valid (demo_listing None None)"
    by (simp_all add: haggle_store run_defs)
  have n: "\<not> notify_fails (at_time 1000)" "\<not> notify_fails (at_time 2000)"
    by (simp_all add: at_time_def)
  from counter_then_accept [OF d g l n, of None]
  show ?thesis by (simp add: demo_offer_def at_time_def) blast
qed

section \<open>A failing notification\<close>








end
